theory Spec2Isabelle
  imports
    Complex_Main
    "HOL-Library.Sublist"
    "HOL-Library.Multiset"
    "HOL-Library.List_Lexorder"
    "HOL-Library.Char_ord"
begin

section \<open>Python values, exceptions and dictionaries\<close>

text \<open>
  The script \<^verbatim>\<open>mapmarkers.py\<close> reads a dynmap \<^verbatim>\<open>markers.yml\<close> and a directory of
  Minecraft \<^verbatim>\<open>map_<n>.dat\<close> files, and sends \<^verbatim>\<open>dmarker\<close> console commands so that there is
  one marker per map location. This theory embeds its functions and the body of its
  \<^verbatim>\<open>__main__\<close> block.

  Exceptions are values: a function that can raise returns \<open>py_error + 'a\<close>.
\<close>

datatype py_error =
  IOError | YAMLError | UnicodeDecodeError
  | KeyError | TypeError | AttributeError | ValueError

text \<open>
  What \<^verbatim>\<open>yaml.safe_load\<close> returns. Mapping keys are strings (dynmap writes marker ids and
  set names as strings); \<open>YFloat\<close> carries the exact value of a finite float. A Python
  \<^verbatim>\<open>dict\<close> keeps its insertion order and has no repeated key: it is an association list,
  and \<open>distinct (map fst d)\<close> is its invariant.
\<close>

datatype yaml =
  YNull
  | YBool bool
  | YInt int
  | YFloat rat
  | YStr string
  | YSeq "yaml list"
  | YMap "(string \<times> yaml) list"

text \<open>\<^verbatim>\<open>d[k] = v\<close>: an existing key keeps its position, a new key goes last.\<close>

fun dict_set :: "('k \<times> 'v) list \<Rightarrow> 'k \<Rightarrow> 'v \<Rightarrow> ('k \<times> 'v) list" where
  "dict_set [] k v = [(k, v)]"
| "dict_set ((k', v') # d) k v =
     (if k' = k then (k, v) # d else (k', v') # dict_set d k v)"

text \<open>\<^verbatim>\<open>k in d.keys()\<close>.\<close>

definition has_key :: "('k \<times> 'v) list \<Rightarrow> 'k \<Rightarrow> bool" where
  "has_key d k = (k \<in> set (map fst d))"

text \<open>\<^verbatim>\<open>k in v\<close> for a string \<open>k\<close>: key membership in a dict, element membership in a list,
  substring test in a string, \<^verbatim>\<open>TypeError\<close> on \<^verbatim>\<open>None\<close> and on numbers.\<close>

definition py_contains :: "yaml \<Rightarrow> string \<Rightarrow> py_error + bool" where
  "py_contains v k =
     (case v of
        YMap d \<Rightarrow> Inr (has_key d k)
      | YSeq xs \<Rightarrow> Inr (YStr k \<in> set xs)
      | YStr s \<Rightarrow> Inr (sublist k s)
      | _ \<Rightarrow> Inl TypeError)"

text \<open>\<^verbatim>\<open>v[k]\<close> for a string \<open>k\<close>: \<^verbatim>\<open>KeyError\<close> on a dict without the key, \<^verbatim>\<open>TypeError\<close> on
  everything that is not a dict (a list or a string wants an integer index, the rest is
  not subscriptable).\<close>

definition py_getitem :: "yaml \<Rightarrow> string \<Rightarrow> py_error + yaml" where
  "py_getitem v k =
     (case v of
        YMap d \<Rightarrow> (case map_of d k of None \<Rightarrow> Inl KeyError | Some x \<Rightarrow> Inr x)
      | _ \<Rightarrow> Inl TypeError)"

text \<open>\<^verbatim>\<open>v.items()\<close>: only a dict has the method.\<close>

definition py_items :: "yaml \<Rightarrow> py_error + (string \<times> yaml) list" where
  "py_items v = (case v of YMap d \<Rightarrow> Inr d | _ \<Rightarrow> Inl AttributeError)"

text \<open>\<^verbatim>\<open>v == s\<close> for a string \<open>s\<close>: only an equal string is equal to it.\<close>

definition py_eq_str :: "yaml \<Rightarrow> string \<Rightarrow> bool" where
  "py_eq_str v s = (case v of YStr t \<Rightarrow> t = s | _ \<Rightarrow> False)"

subsection \<open>Decimal numerals\<close>

definition is_digit :: "char \<Rightarrow> bool" where
  "is_digit c = (of_char c \<in> {48 .. 57 :: nat})"

definition digit_val :: "char \<Rightarrow> nat" where
  "digit_val c = of_char c - 48"

definition digit_char :: "nat \<Rightarrow> char" where
  "digit_char d = char_of (48 + d)"

text \<open>\<^verbatim>\<open>int(s)\<close> on a string of decimal digits (leading zeros allowed).\<close>

definition nat_of_digits :: "string \<Rightarrow> nat" where
  "nat_of_digits s = foldl (\<lambda>a c. 10 * a + digit_val c) 0 s"

text \<open>\<^verbatim>\<open>str(n)\<close> for a non-negative integer.\<close>

function str_nat :: "nat \<Rightarrow> string" where
  "str_nat n = (if n < 10 then [digit_char n] else str_nat (n div 10) @ [digit_char (n mod 10)])"
  by pat_completeness auto
termination
  by (relation "measure id") auto

declare str_nat.simps [simp del]

text \<open>\<^verbatim>\<open>str(i)\<close> and \<^verbatim>\<open>f'{i}'\<close> for an integer.\<close>

definition str_int :: "int \<Rightarrow> string" where
  "str_int i = (if i < 0 then CHR ''-'' # str_nat (nat (- i)) else str_nat (nat i))"

text \<open>
  \<^verbatim>\<open>int(s)\<close> on a string, for ASCII text: surrounding whitespace is stripped, a sign may
  come first, and the digits may be separated by single underscores.
\<close>

definition py_isspace :: "char \<Rightarrow> bool" where
  "py_isspace c = (of_char c \<in> {9, 10, 11, 12, 13, 28, 29, 30, 31, 32 :: nat})"

definition py_strip :: "string \<Rightarrow> string" where
  "py_strip s = rev (dropWhile py_isspace (rev (dropWhile py_isspace s)))"

fun digits_body :: "string \<Rightarrow> bool" where
  "digits_body [] = False"
| "digits_body [c] = is_digit c"
| "digits_body (c # d # r) =
     (is_digit c \<and> (if d = CHR ''_'' then digits_body r else digits_body (d # r)))"

definition py_int_str :: "string \<Rightarrow> py_error + int" where
  "py_int_str s =
     (let t = py_strip s;
          (neg, body) =
            (case t of
               c # r \<Rightarrow> if c = CHR ''-'' then (True, r) else if c = CHR ''+'' then (False, r) else (False, t)
             | [] \<Rightarrow> (False, t))
      in if digits_body body
         then (let n = int (nat_of_digits (filter (\<lambda>c. c \<noteq> CHR ''_'') body))
               in Inr (if neg then - n else n))
         else Inl ValueError)"

text \<open>\<^verbatim>\<open>int(v)\<close>: a float is truncated toward zero, a bool is 0 or 1, a string is parsed;
  \<^verbatim>\<open>None\<close>, a list and a dict raise \<^verbatim>\<open>TypeError\<close>.\<close>

definition py_trunc :: "rat \<Rightarrow> int" where
  "py_trunc r = (if r < 0 then - \<lfloor>- r\<rfloor> else \<lfloor>r\<rfloor>)"

definition py_int :: "yaml \<Rightarrow> py_error + int" where
  "py_int v =
     (case v of
        YInt i \<Rightarrow> Inr i
      | YFloat r \<Rightarrow> Inr (py_trunc r)
      | YBool b \<Rightarrow> Inr (if b then 1 else 0)
      | YStr s \<Rightarrow> py_int_str s
      | _ \<Rightarrow> Inl TypeError)"

section \<open>Console commands\<close>

definition MARKER_Y :: int where
  "MARKER_Y = 64"

text \<open>
  The command lines the script sends: \<^verbatim>\<open>save-all\<close>, \<^verbatim>\<open>dmarker delete id:{id}\<close> and
  \<^verbatim>\<open>dmarker add id:{id} {id} icon:pin set:{markerSet} x:{x} y:{y} z:{z} world:{world}\<close>
  (the label is the id again). \<open>Dmarker_add\<close> lists id, marker set, x, y, z, world.
\<close>

datatype command =
  Save_all
  | Dmarker_delete string
  | Dmarker_add string string int int int string

text \<open>What is written to standard error: the usage text (with \<^verbatim>\<open>sys.argv[0]\<close>), or the
  text after \<^verbatim>\<open>#ERROR:\<close>.\<close>

datatype message = Usage string | Error string

text \<open>
  What the script does to the outside, in order: \<^verbatim>\<open>os.system('mark2 send -n {server}
  {command}')\<close>, a line on standard error, \<^verbatim>\<open>time.sleep\<close>.
\<close>

datatype effect = Console string command | Stderr message | Sleep nat

definition serverCommand :: "string \<Rightarrow> command \<Rightarrow> effect list \<Rightarrow> effect list" where
  "serverCommand server command out = out @ [Console server command]"

definition deleteMarker :: "string \<Rightarrow> string \<Rightarrow> effect list \<Rightarrow> effect list" where
  "deleteMarker server id' out = serverCommand server (Dmarker_delete id') out"

definition addMarker ::
  "string \<Rightarrow> string \<Rightarrow> string \<Rightarrow> string \<Rightarrow> int \<Rightarrow> int \<Rightarrow> int \<Rightarrow> effect list \<Rightarrow> effect list" where
  "addMarker server id' markerSet world x y z out =
     serverCommand server (Dmarker_add id' markerSet x y z world) out"

section \<open>The reconciliation loops of the main block\<close>

text \<open>How a run ends: it reaches the end of the script, it calls \<^verbatim>\<open>sys.exit\<close>, or an
  exception is never caught.\<close>

datatype outcome = Returned | Exit nat | Raised py_error

text \<open>
  \<^verbatim>\<open>for mapID in markers.keys(): if mapID not in maps.keys(): deleteMarker(server, mapID)\<close>
\<close>

fun delete_unused_markers ::
  "string \<Rightarrow> (string \<times> int \<times> int) list \<Rightarrow> (string \<times> yaml) list \<Rightarrow> effect list \<Rightarrow> effect list" where
  "delete_unused_markers server maps [] out = out"
| "delete_unused_markers server maps ((mapID, marker) # rest) out =
     delete_unused_markers server maps rest
       (if \<not> has_key maps mapID then deleteMarker server mapID out else out)"

text \<open>
  The test \<^verbatim>\<open>mapData['x'] != int(markers[mapID]['x']) or MARKER_Y != int(markers[mapID]['y'])
  or mapData['z'] != int(markers[mapID]['z'])\<close>, evaluated from the left: a later
  coordinate is read only when the earlier ones agree.
\<close>

definition marker_int :: "yaml \<Rightarrow> string \<Rightarrow> py_error + int" where
  "marker_int marker k =
     (case py_getitem marker k of Inl e \<Rightarrow> Inl e | Inr v \<Rightarrow> py_int v)"

definition coords_differ :: "int \<times> int \<Rightarrow> yaml \<Rightarrow> py_error + bool" where
  "coords_differ mapData marker =
     (case marker_int marker ''x'' of
        Inl e \<Rightarrow> Inl e
      | Inr mx \<Rightarrow>
          if fst mapData \<noteq> mx then Inr True
          else (case marker_int marker ''y'' of
                  Inl e \<Rightarrow> Inl e
                | Inr my \<Rightarrow>
                    if MARKER_Y \<noteq> my then Inr True
                    else (case marker_int marker ''z'' of
                            Inl e \<Rightarrow> Inl e
                          | Inr mz \<Rightarrow> Inr (snd mapData \<noteq> mz))))"

text \<open>The body of \<^verbatim>\<open>for mapID, mapData in maps.items()\<close>; \<open>mapData\<close> is the pair of
  \<^verbatim>\<open>mapData['x']\<close> and \<^verbatim>\<open>mapData['z']\<close>.\<close>

definition update_marker ::
  "string \<Rightarrow> string \<Rightarrow> string \<Rightarrow> (string \<times> yaml) list \<Rightarrow> string \<times> int \<times> int \<Rightarrow>
     effect list \<Rightarrow> py_error + effect list" where
  "update_marker server world markerSet markers item out =
     (let mapID = fst item; mapData = snd item in
      if has_key markers mapID then
        (case map_of markers mapID of
           None \<Rightarrow> Inl KeyError
         | Some marker \<Rightarrow>
             (case coords_differ mapData marker of
                Inl e \<Rightarrow> Inl e
              | Inr True \<Rightarrow>
                  Inr (addMarker server mapID markerSet world (fst mapData) MARKER_Y (snd mapData)
                         (deleteMarker server mapID out))
              | Inr False \<Rightarrow> Inr out))
      else Inr (addMarker server mapID markerSet world (fst mapData) MARKER_Y (snd mapData) out))"

fun update_markers ::
  "string \<Rightarrow> string \<Rightarrow> string \<Rightarrow> (string \<times> yaml) list \<Rightarrow> (string \<times> int \<times> int) list \<Rightarrow>
     effect list \<Rightarrow> effect list \<times> outcome" where
  "update_markers server world markerSet markers [] out = (out, Returned)"
| "update_markers server world markerSet markers (item # rest) out =
     (case update_marker server world markerSet markers item out of
        Inl e \<Rightarrow> (out, Raised e)
      | Inr out' \<Rightarrow> update_markers server world markerSet markers rest out')"

text \<open>Both loops, in the order of the script.\<close>

definition reconcile ::
  "string \<Rightarrow> string \<Rightarrow> string \<Rightarrow> (string \<times> int \<times> int) list \<Rightarrow> (string \<times> yaml) list \<Rightarrow>
     effect list \<Rightarrow> effect list \<times> outcome" where
  "reconcile server world markerSet maps markers out =
     update_markers server world markerSet markers maps
       (delete_unused_markers server maps markers out)"

section \<open>Loading the markers\<close>

text \<open>
  \<^verbatim>\<open>open(markersFileName)\<close> followed by \<^verbatim>\<open>yaml.safe_load\<close>: an exception (\<^verbatim>\<open>IOError\<close> when
  the file cannot be opened or read, another one when its content is not YAML text), or
  the parsed document.
\<close>

datatype file_read = Read_raised py_error | Parsed yaml

text \<open>
  How a function stops without returning: \<^verbatim>\<open>sys.exit(status)\<close> after a message on
  standard error, or an exception that nothing catches.
\<close>

datatype failure = SysExit message nat | Uncaught py_error

text \<open>The loop of \<^verbatim>\<open>loadMarkers\<close>:
  \<^verbatim>\<open>if marker['world'] == world and marker['label'] == id: result[id] = marker\<close>.\<close>

fun loadMarkers_loop ::
  "string \<Rightarrow> (string \<times> yaml) list \<Rightarrow> (string \<times> yaml) list \<Rightarrow> py_error + (string \<times> yaml) list" where
  "loadMarkers_loop world [] result = Inr result"
| "loadMarkers_loop world ((id', marker) # rest) result =
     (case py_getitem marker ''world'' of
        Inl e \<Rightarrow> Inl e
      | Inr w \<Rightarrow>
          if py_eq_str w world then
            (case py_getitem marker ''label'' of
               Inl e \<Rightarrow> Inl e
             | Inr l \<Rightarrow>
                 loadMarkers_loop world rest
                   (if py_eq_str l id' then dict_set result id' marker else result))
          else loadMarkers_loop world rest result)"

text \<open>\<^verbatim>\<open>markers['sets'][markerSet]['markers'].items()\<close>.\<close>

definition set_items :: "yaml \<Rightarrow> string \<Rightarrow> py_error + (string \<times> yaml) list" where
  "set_items markers markerSet =
     (case py_getitem markers ''sets'' of
        Inl e \<Rightarrow> Inl e
      | Inr sets \<Rightarrow>
          (case py_getitem sets markerSet of
             Inl e \<Rightarrow> Inl e
           | Inr s \<Rightarrow>
               (case py_getitem s ''markers'' of
                  Inl e \<Rightarrow> Inl e
                | Inr ms \<Rightarrow> py_items ms)))"

definition loadMarkers ::
  "file_read \<Rightarrow> string \<Rightarrow> string \<Rightarrow> string \<Rightarrow> failure + (string \<times> yaml) list" where
  "loadMarkers file markersFileName markerSet world =
     (case file of
        Read_raised e \<Rightarrow>
          if e = IOError
          then Inl (SysExit (Error (''cannot open markers file '' @ markersFileName @ [CHR 0x22] @ '' to read!'')) 1)
          else Inl (Uncaught e)
      | Parsed markers \<Rightarrow>
          (case py_contains markers ''sets'' of
             Inl e \<Rightarrow> Inl (Uncaught e)
           | Inr found \<Rightarrow>
               if \<not> found
               then Inl (SysExit (Error ([CHR 0x22] @ markersFileName @ [CHR 0x22] @
                      '' doesn'' @ [CHR 0x27] @ ''t seem to be a markers file!'')) 1)
               else (case set_items markers markerSet of
                       Inl e \<Rightarrow> Inl (Uncaught e)
                     | Inr items \<Rightarrow>
                         (case loadMarkers_loop world items [] of
                            Inl e \<Rightarrow> Inl (Uncaught e)
                          | Inr result \<Rightarrow> Inr result))))"

section \<open>Loading the maps\<close>

text \<open>The fields of \<^verbatim>\<open>nbt.root['data']\<close> that the script reads, of one decoded map file.\<close>

record map_dat =
  dimension :: string
  scale :: int
  xCenter :: int
  zCenter :: int

text \<open>
  \<^verbatim>\<open>glob.glob(f'{mapsDir}/map_*.dat')\<close> over the listing of the maps directory (file name
  and decoded content): the names that start with \<^verbatim>\<open>map_\<close> and go on to end with
  \<^verbatim>\<open>.dat\<close>, each as a path under \<open>mapsDir\<close>.
\<close>

definition fnmatch_map :: "string \<Rightarrow> bool" where
  "fnmatch_map name = (prefix ''map_'' name \<and> suffix ''.dat'' (drop 4 name))"

definition glob_maps :: "string \<Rightarrow> (string \<times> map_dat) list \<Rightarrow> (string \<times> map_dat) list" where
  "glob_maps mapsDir listing =
     map (\<lambda>entry. (mapsDir @ ''/'' @ fst entry, snd entry))
       (filter (\<lambda>entry. fnmatch_map (fst entry)) listing)"

text \<open>
  \<^verbatim>\<open>re.match('.*/map_(\d+).dat', file)\<close> and its group 1, by backtracking as the \<^verbatim>\<open>re\<close>
  module does. The match starts at the first character and may stop before the last.
  A dot matches any character but a newline; the dot before \<^verbatim>\<open>dat\<close> is not escaped.
  \<^verbatim>\<open>.*\<close> first takes as many characters as it can and gives them back one at a time;
  so does \<^verbatim>\<open>\d+\<close>, down to one digit. File names are ASCII text.
\<close>

definition match_tail :: "string \<Rightarrow> bool" where
  "match_tail t = (case t of [] \<Rightarrow> False | c # r \<Rightarrow> c \<noteq> CHR 0x0A \<and> prefix ''dat'' r)"

fun match_digits :: "string \<Rightarrow> nat \<Rightarrow> string option" where
  "match_digits s 0 = None"
| "match_digits s (Suc n) =
     (if match_tail (drop (Suc n) s) then Some (take (Suc n) s) else match_digits s n)"

definition match_at :: "string \<Rightarrow> nat \<Rightarrow> string option" where
  "match_at file k =
     (let s = drop k file in
      if prefix ''/map_'' s
      then match_digits (drop 5 s) (length (takeWhile is_digit (drop 5 s)))
      else None)"

fun match_star :: "string \<Rightarrow> nat \<Rightarrow> string option" where
  "match_star file 0 = match_at file 0"
| "match_star file (Suc k) =
     (case match_at file (Suc k) of Some g \<Rightarrow> Some g | None \<Rightarrow> match_star file k)"

definition re_match_group1 :: "string \<Rightarrow> string option" where
  "re_match_group1 file = match_star file (length (takeWhile (\<lambda>c. c \<noteq> CHR 0x0A) file))"

text \<open>The key \<^verbatim>\<open>f'{x}:{z}'\<close> of a map centre.\<close>

definition coords_key :: "int \<Rightarrow> int \<Rightarrow> string" where
  "coords_key x z = str_int x @ '':'' @ str_int z"

text \<open>
  The body of the loop over the files. \<open>highestMapID\<close> maps the key \<^verbatim>\<open>f'{x}:{z}'\<close> to a map
  id, \<open>allMaps\<close> maps a map id to its centre. \<^verbatim>\<open>match.group(1)\<close> on a failed match
  (\<^verbatim>\<open>None\<close>) raises \<^verbatim>\<open>AttributeError\<close>.
\<close>

fun loadMaps_file ::
  "string \<Rightarrow> string \<times> map_dat \<Rightarrow> (string \<times> nat) list \<times> (nat \<times> int \<times> int) list \<Rightarrow>
     py_error + (string \<times> nat) list \<times> (nat \<times> int \<times> int) list" where
  "loadMaps_file world (file, nbt) (highestMapID, allMaps) =
     (if dimension nbt = ''minecraft:'' @ world then
        (case re_match_group1 file of
           None \<Rightarrow> Inl AttributeError
         | Some g \<Rightarrow>
             (let mapID = nat_of_digits g in
              if scale nbt = 0 then
                (let x = xCenter nbt;
                     z = zCenter nbt;
                     allMaps' = dict_set allMaps mapID (x, z);
                     coordsKey = coords_key x z
                 in Inr (if \<not> has_key highestMapID coordsKey \<or>
                            (case map_of highestMapID coordsKey of
                               Some highest \<Rightarrow> highest < mapID | None \<Rightarrow> False)
                         then dict_set highestMapID coordsKey mapID
                         else highestMapID,
                         allMaps'))
              else Inr (highestMapID, allMaps)))
      else Inr (highestMapID, allMaps))"

fun loadMaps_files ::
  "string \<Rightarrow> (string \<times> map_dat) list \<Rightarrow> (string \<times> nat) list \<times> (nat \<times> int \<times> int) list \<Rightarrow>
     py_error + (string \<times> nat) list \<times> (nat \<times> int \<times> int) list" where
  "loadMaps_files world [] state = Inr state"
| "loadMaps_files world (f # files) state =
     (case loadMaps_file world f state of
        Inl e \<Rightarrow> Inl e
      | Inr state' \<Rightarrow> loadMaps_files world files state')"

text \<open>\<^verbatim>\<open>for coordsKey, mapID in highestMapID.items(): result[str(mapID)] = allMaps[mapID]\<close>.\<close>

fun loadMaps_result ::
  "(string \<times> nat) list \<Rightarrow> (nat \<times> int \<times> int) list \<Rightarrow> (string \<times> int \<times> int) list \<Rightarrow>
     py_error + (string \<times> int \<times> int) list" where
  "loadMaps_result [] allMaps result = Inr result"
| "loadMaps_result ((coordsKey, mapID) # rest) allMaps result =
     (case map_of allMaps mapID of
        None \<Rightarrow> Inl KeyError
      | Some mapData \<Rightarrow> loadMaps_result rest allMaps (dict_set result (str_nat mapID) mapData))"

text \<open>The reduction of \<^verbatim>\<open>loadMaps\<close> on the files in the order given, and \<^verbatim>\<open>loadMaps\<close>
  itself, which takes them in the sorted order of their paths.\<close>

definition reduce_maps :: "string \<Rightarrow> (string \<times> map_dat) list \<Rightarrow> py_error + (string \<times> int \<times> int) list" where
  "reduce_maps world files =
     (case loadMaps_files world files ([], []) of
        Inl e \<Rightarrow> Inl e
      | Inr (highestMapID, allMaps) \<Rightarrow> loadMaps_result highestMapID allMaps [])"

definition loadMaps ::
  "string \<Rightarrow> string \<Rightarrow> (string \<times> map_dat) list \<Rightarrow> py_error + (string \<times> int \<times> int) list" where
  "loadMaps mapsDir world listing = reduce_maps world (sort_key fst (glob_maps mapsDir listing))"

section \<open>The main block\<close>

text \<open>What the script asks of the file system: \<^verbatim>\<open>os.path.isfile\<close>, \<^verbatim>\<open>os.path.isdir\<close>,
  the markers file as read and parsed, the listing of a directory with the decoded
  content of each file.\<close>

record env =
  isfile :: "string \<Rightarrow> bool"
  isdir :: "string \<Rightarrow> bool"
  read_yaml :: "string \<Rightarrow> file_read"
  listdir :: "string \<Rightarrow> (string \<times> map_dat) list"

text \<open>\<^verbatim>\<open>usage()\<close>: the usage text on standard error, then \<^verbatim>\<open>sys.exit(1)\<close>.\<close>

definition usage :: "string \<Rightarrow> effect list \<Rightarrow> effect list \<times> outcome" where
  "usage prog out = (out @ [Stderr (Usage prog)], Exit 1)"

text \<open>
  The main block, for \<^verbatim>\<open>sys.argv = [prog] + args\<close>. An exception that nothing catches
  ends the run (the interpreter prints a traceback).
\<close>

definition main :: "env \<Rightarrow> string \<Rightarrow> string list \<Rightarrow> effect list \<times> outcome" where
  "main e prog args =
     (if length (prog # args) \<noteq> 6 then usage prog []
      else
        (case args of
           [server, world, mapsDir, markersFileName, markerSet] \<Rightarrow>
             if \<not> isfile e markersFileName
             then ([Stderr (Error ([CHR 0x22] @ markersFileName @ [CHR 0x22] @
                     '' doesn'' @ [CHR 0x27] @ ''t exist!''))], Exit 1)
             else if \<not> isdir e mapsDir
             then ([Stderr (Error ([CHR 0x22] @ mapsDir @ [CHR 0x22] @ '' is not a directory!''))], Exit 1)
             else
               (let out = serverCommand server Save_all [] @ [Sleep 5] in
                case loadMaps mapsDir world (listdir e mapsDir) of
                  Inl err \<Rightarrow> (out, Raised err)
                | Inr maps \<Rightarrow>
                    (case loadMarkers (read_yaml e markersFileName) markersFileName markerSet world of
                       Inl (SysExit msg status) \<Rightarrow> (out @ [Stderr msg], Exit status)
                     | Inl (Uncaught err) \<Rightarrow> (out, Raised err)
                     | Inr markers \<Rightarrow> reconcile server world markerSet maps markers out))
         | _ \<Rightarrow> ([], Raised ValueError)))"

section \<open>Notions used to state the properties\<close>

text \<open>The marker id a console command is about: the actions aimed at one id are the
  commands of a run with that target, in the order sent.\<close>

definition target :: "effect \<Rightarrow> string option" where
  "target e =
     (case e of
        Console server (Dmarker_delete k) \<Rightarrow> Some k
      | Console server (Dmarker_add k markerSet x y z world) \<Rightarrow> Some k
      | _ \<Rightarrow> None)"

definition for_id :: "string \<Rightarrow> effect list \<Rightarrow> effect list" where
  "for_id k out = filter (\<lambda>e. target e = Some k) out"

text \<open>The three coordinates of a marker as the comparison reads them, each through
  \<^verbatim>\<open>int(...)\<close>.\<close>

definition marker_coords :: "yaml \<Rightarrow> (py_error + int) \<times> (py_error + int) \<times> (py_error + int)" where
  "marker_coords marker = (marker_int marker ''x'', marker_int marker ''y'', marker_int marker ''z'')"

text \<open>A marker table whose markers all carry coordinates that \<^verbatim>\<open>int(...)\<close> accepts, in a
  dict (no repeated id).\<close>

definition numeric_marker :: "yaml \<Rightarrow> bool" where
  "numeric_marker marker =
     (case marker_coords marker of (Inr a, Inr b, Inr c) \<Rightarrow> True | _ \<Rightarrow> False)"

definition marker_table :: "(string \<times> yaml) list \<Rightarrow> bool" where
  "marker_table markers =
     (distinct (map fst markers) \<and> list_all (\<lambda>item. numeric_marker (snd item)) markers)"

text \<open>
  A marker with whole-number coordinates: each of \<^verbatim>\<open>x\<close>, \<^verbatim>\<open>y\<close>, \<^verbatim>\<open>z\<close> is an int, or a
  float with a whole value (dynmap writes \<^verbatim>\<open>100.0\<close>). \<open>marker_xyz\<close> is its position.
\<close>

definition whole_number :: "yaml \<Rightarrow> int option" where
  "whole_number v =
     (case v of
        YInt i \<Rightarrow> Some i
      | YFloat r \<Rightarrow> if of_int \<lfloor>r\<rfloor> = r then Some \<lfloor>r\<rfloor> else None
      | _ \<Rightarrow> None)"

definition marker_xyz :: "yaml \<Rightarrow> (int \<times> int \<times> int) option" where
  "marker_xyz marker =
     (case (py_getitem marker ''x'', py_getitem marker ''y'', py_getitem marker ''z'') of
        (Inr vx, Inr vy, Inr vz) \<Rightarrow>
          (case (whole_number vx, whole_number vy, whole_number vz) of
             (Some a, Some b, Some c) \<Rightarrow> Some (a, b, c)
           | _ \<Rightarrow> None)
      | _ \<Rightarrow> None)"

text \<open>A marker table of such markers, in a dict (no repeated id).\<close>

definition integer_markers :: "(string \<times> yaml) list \<Rightarrow> bool" where
  "integer_markers markers =
     (distinct (map fst markers) \<and> list_all (\<lambda>item. marker_xyz (snd item) \<noteq> None) markers)"

text \<open>What one pass of the second loop sends for one map (nothing when the pass raises).\<close>

definition item_effects ::
  "string \<Rightarrow> string \<Rightarrow> string \<Rightarrow> (string \<times> yaml) list \<Rightarrow> string \<times> int \<times> int \<Rightarrow> effect list" where
  "item_effects server world markerSet markers item =
     (case update_marker server world markerSet markers item [] of Inl e \<Rightarrow> [] | Inr cs \<Rightarrow> cs)"

text \<open>
  The server's side of the commands, as the idempotence property describes it: a delete
  removes the id from the marker table, an add inserts a marker whose label is its id, at
  the coordinates of the command.
\<close>

definition new_marker :: "string \<Rightarrow> string \<Rightarrow> int \<Rightarrow> int \<Rightarrow> int \<Rightarrow> yaml" where
  "new_marker world k x y z =
     YMap [(''world'', YStr world), (''label'', YStr k),
           (''x'', YInt x), (''y'', YInt y), (''z'', YInt z)]"

fun apply_effect :: "effect \<Rightarrow> (string \<times> yaml) list \<Rightarrow> (string \<times> yaml) list" where
  "apply_effect (Console server (Dmarker_delete k)) table = filter (\<lambda>item. fst item \<noteq> k) table"
| "apply_effect (Console server (Dmarker_add k markerSet x y z world)) table =
     dict_set table k (new_marker world k x y z)"
| "apply_effect e table = table"

definition apply_effects :: "effect list \<Rightarrow> (string \<times> yaml) list \<Rightarrow> (string \<times> yaml) list" where
  "apply_effects out table = foldl (\<lambda>t e. apply_effect e t) table out"

text \<open>The marker an add command leaves in the table.\<close>

definition effect_on :: "effect \<Rightarrow> yaml option" where
  "effect_on e =
     (case e of
        Console server (Dmarker_add k markerSet x y z world) \<Rightarrow> Some (new_marker world k x y z)
      | _ \<Rightarrow> None)"

text \<open>The markers that \<^verbatim>\<open>loadMarkers\<close> keeps: the world is the target world and the label
  is the id.\<close>

definition managed :: "string \<Rightarrow> string \<times> yaml \<Rightarrow> bool" where
  "managed world item =
     ((case py_getitem (snd item) ''world'' of Inr w \<Rightarrow> py_eq_str w world | Inl e \<Rightarrow> False) \<and>
      (case py_getitem (snd item) ''label'' of Inr l \<Rightarrow> py_eq_str l (fst item) | Inl e \<Rightarrow> False))"

text \<open>
  The map records of a list of files: for each file of the target world at scale 0, the id
  read from its path and its centre. \<open>names_match\<close> says that the pattern matches the path
  of every file of the target world.
\<close>

definition map_record :: "string \<Rightarrow> string \<times> map_dat \<Rightarrow> (nat \<times> int \<times> int) option" where
  "map_record world f =
     (if dimension (snd f) = ''minecraft:'' @ world \<and> scale (snd f) = 0
      then (case re_match_group1 (fst f) of
              None \<Rightarrow> None
            | Some g \<Rightarrow> Some (nat_of_digits g, xCenter (snd f), zCenter (snd f)))
      else None)"

definition map_records :: "string \<Rightarrow> (string \<times> map_dat) list \<Rightarrow> (nat \<times> int \<times> int) list" where
  "map_records world files = List.map_filter (map_record world) files"

definition names_match :: "string \<Rightarrow> (string \<times> map_dat) list \<Rightarrow> bool" where
  "names_match world files =
     list_all (\<lambda>f. dimension (snd f) = ''minecraft:'' @ world \<longrightarrow> re_match_group1 (fst f) \<noteq> None) files"

text \<open>The ids of the records centred at \<open>(x, z)\<close>, and the table the reduction is to
  produce: for each centre that occurs, the highest of its ids, as a string, with the
  centre.\<close>

definition ids_at :: "(nat \<times> int \<times> int) set \<Rightarrow> int \<Rightarrow> int \<Rightarrow> nat set" where
  "ids_at R x z = {i. (i, x, z) \<in> R}"

definition winners :: "(nat \<times> int \<times> int) set \<Rightarrow> (string \<times> int \<times> int) set" where
  "winners R = (\<lambda>r. (str_nat (Max (ids_at R (fst (snd r)) (snd (snd r)))), snd r)) ` R"

text \<open>What one file of the target world at scale 0 does to the two dicts of \<^verbatim>\<open>loadMaps\<close>.\<close>

definition track ::
  "(string \<times> nat) list \<times> (nat \<times> int \<times> int) list \<Rightarrow> nat \<times> int \<times> int \<Rightarrow>
     (string \<times> nat) list \<times> (nat \<times> int \<times> int) list" where
  "track state r =
     (let highestMapID = fst state; allMaps = snd state;
          mapID = fst r; x = fst (snd r); z = snd (snd r)
      in (if \<not> has_key highestMapID (coords_key x z) \<or>
             (case map_of highestMapID (coords_key x z) of
                Some highest \<Rightarrow> highest < mapID | None \<Rightarrow> False)
          then dict_set highestMapID (coords_key x z) mapID
          else highestMapID,
          dict_set allMaps mapID (x, z)))"

text \<open>What the two dicts of \<^verbatim>\<open>loadMaps\<close> hold once the records \<open>R\<close> have been seen.\<close>

definition maps_inv ::
  "(nat \<times> int \<times> int) set \<Rightarrow> (string \<times> nat) list \<times> (nat \<times> int \<times> int) list \<Rightarrow> bool" where
  "maps_inv R state =
     (distinct (map fst (fst state)) \<and> distinct (map fst (snd state)) \<and>
      (\<forall>i x z. (map_of (snd state) i = Some (x, z)) = ((i, x, z) \<in> R)) \<and>
      (\<forall>k m. (map_of (fst state) k = Some m) =
         (\<exists>x z. k = coords_key x z \<and> ids_at R x z \<noteq> {} \<and> m = Max (ids_at R x z))))"

section \<open>Properties\<close>

subsection \<open>What a run sends\<close>

lemma has_key_map_of: "has_key d k \<longleftrightarrow> map_of d k \<noteq> None"
  by (simp add: has_key_def map_of_eq_None_iff)

lemma delete_unused_markers_out:
  "delete_unused_markers server maps ms out =
     out @ map (\<lambda>k. Console server (Dmarker_delete k)) (filter (\<lambda>k. \<not> has_key maps k) (map fst ms))"
  by (induction ms arbitrary: out) (auto simp: deleteMarker_def serverCommand_def)

lemma update_marker_out:
  "update_marker server world markerSet markers item out =
     (case update_marker server world markerSet markers item [] of
        Inl e \<Rightarrow> Inl e | Inr cs \<Rightarrow> Inr (out @ cs))"
  by (auto simp: update_marker_def Let_def deleteMarker_def addMarker_def serverCommand_def
      split: option.splits sum.splits bool.splits)

lemma update_markers_prefix:
  "update_markers server world markerSet markers items out = (out', oc) \<Longrightarrow>
   \<exists>done. prefix done items \<and> (oc = Returned \<longrightarrow> done = items) \<and>
     out' = out @ concat (map (item_effects server world markerSet markers) done)"
proof (induction items arbitrary: out)
  case Nil
  then show ?case by auto
next
  case (Cons item rest)
  show ?case
  proof (cases "update_marker server world markerSet markers item [] ")
    case (Inl e)
    then have "update_marker server world markerSet markers item out = Inl e"
      by (subst update_marker_out) simp
    with Cons.prems have "out' = out" by simp
    then show ?thesis using Cons.prems \<open>update_marker server world markerSet markers item out = Inl e\<close>
      by (intro exI[of _ "[]"]) auto
  next
    case (Inr cs)
    then have u: "update_marker server world markerSet markers item out = Inr (out @ cs)"
      by (subst update_marker_out) simp
    with Cons.prems have "update_markers server world markerSet markers rest (out @ cs) = (out', oc)"
      by simp
    from Cons.IH[OF this] obtain dn where
      "prefix dn rest" "oc = Returned \<longrightarrow> dn = rest"
      "out' = (out @ cs) @ concat (map (item_effects server world markerSet markers) dn)"
      by blast
    moreover have "item_effects server world markerSet markers item = cs"
      using Inr by (simp add: item_effects_def)
    ultimately show ?thesis
      by (intro exI[of _ "item # dn"]) auto
  qed
qed

lemma item_effects_cases:
  "item_effects server world markerSet markers (k, x, z) = [] \<or>
   item_effects server world markerSet markers (k, x, z) = [Console server (Dmarker_add k markerSet x MARKER_Y z world)] \<or>
   item_effects server world markerSet markers (k, x, z) =
     [Console server (Dmarker_delete k), Console server (Dmarker_add k markerSet x MARKER_Y z world)]"
  by (auto simp: item_effects_def update_marker_def Let_def deleteMarker_def addMarker_def serverCommand_def
      split: option.splits sum.splits bool.splits)

lemma item_effects_target:
  "e \<in> set (item_effects server world markerSet markers item) \<Longrightarrow> target e = Some (fst item)"
  using item_effects_cases[of server world markerSet markers "fst item" "fst (snd item)" "snd (snd item)"]
  by (auto simp: target_def)

lemma for_id_concat:
  assumes "\<And>it e. it \<in> set items \<Longrightarrow> e \<in> set (f it) \<Longrightarrow> target e = Some (fst it)"
    and "distinct (map fst items)"
  shows "for_id k (concat (map f items)) = (case map_of items k of None \<Rightarrow> [] | Some d \<Rightarrow> f (k, d))"
  using assms
proof (induction items)
  case Nil
  then show ?case by (simp add: for_id_def)
next
  case (Cons it items)
  obtain k' d' where it: "it = (k', d')" by (cases it)
  have tl: "for_id k (concat (map f items)) = (case map_of items k of None \<Rightarrow> [] | Some d \<Rightarrow> f (k, d))"
    using Cons by simp
  have hd_in: "k' = k \<Longrightarrow> for_id k (f it) = f it"
    using Cons.prems(1)[of it] by (auto simp: for_id_def it filter_id_conv)
  have hd_out: "k' \<noteq> k \<Longrightarrow> for_id k (f it) = []"
    using Cons.prems(1)[of it] by (auto simp: for_id_def it filter_empty_conv)
  have nk: "k' = k \<Longrightarrow> map_of items k = None"
    using Cons.prems(2) by (auto simp: it map_of_eq_None_iff)
  show ?case
  proof (cases "k' = k")
    case True
    then show ?thesis using hd_in nk tl by (simp add: for_id_def it)
  next
    case False
    then show ?thesis using hd_out tl by (simp add: for_id_def it)
  qed
qed


lemma for_id_append: "for_id k (xs @ ys) = for_id k xs @ for_id k ys"
  by (simp add: for_id_def)

lemma for_id_deletes:
  "distinct ks \<Longrightarrow>
   for_id k (map (\<lambda>k. Console server (Dmarker_delete k)) (filter P ks)) =
     (if k \<in> set ks \<and> P k then [Console server (Dmarker_delete k)] else [])"
proof (induction ks)
  case Nil
  then show ?case by (simp add: for_id_def)
next
  case (Cons a ks)
  then show ?case by (auto simp: for_id_def target_def)
qed

lemma reconcile_out:
  assumes "reconcile server world markerSet maps markers [] = (out, oc)"
  shows "\<exists>done. prefix done maps \<and> (oc = Returned \<longrightarrow> done = maps) \<and>
     out = map (\<lambda>k. Console server (Dmarker_delete k)) (filter (\<lambda>k. \<not> has_key maps k) (map fst markers))
           @ concat (map (item_effects server world markerSet markers) done)"
  using update_markers_prefix[of server world markerSet markers maps
      "delete_unused_markers server maps markers []" out oc] assms
  by (simp add: reconcile_def delete_unused_markers_out)

lemma prefix_keys:
  assumes "prefix done maps" "distinct (map fst maps)"
  shows "distinct (map fst done)" and "map_of done k = Some d \<Longrightarrow> map_of maps k = Some d"
proof -
  from assms(1) obtain rest where m: "maps = done @ rest" by (auto simp: prefix_def)
  show "distinct (map fst done)" using assms(2) m by simp
  show "map_of done k = Some d \<Longrightarrow> map_of maps k = Some d" using m by simp
qed

lemma reconcile_for_id:
  assumes "distinct (map fst maps)" "distinct (map fst markers)"
    and "reconcile server world markerSet maps markers [] = (out, oc)"
  shows "for_id k out = [] \<or>
     (\<not> has_key maps k \<and> has_key markers k \<and> for_id k out = [Console server (Dmarker_delete k)]) \<or>
     (\<exists>d. map_of maps k = Some d \<and> for_id k out = item_effects server world markerSet markers (k, d))"
proof -
  from reconcile_out[OF assms(3)] obtain dn where dn: "prefix dn maps"
    and out: "out = map (\<lambda>k. Console server (Dmarker_delete k)) (filter (\<lambda>k. \<not> has_key maps k) (map fst markers))
           @ concat (map (item_effects server world markerSet markers) dn)"
    by blast
  have dd: "distinct (map fst dn)" using prefix_keys(1)[OF dn assms(1)] .
  have upd: "for_id k (concat (map (item_effects server world markerSet markers) dn)) =
      (case map_of dn k of None \<Rightarrow> [] | Some d \<Rightarrow> item_effects server world markerSet markers (k, d))"
    by (rule for_id_concat[OF item_effects_target dd])
  have del: "for_id k (map (\<lambda>k. Console server (Dmarker_delete k)) (filter (\<lambda>k. \<not> has_key maps k) (map fst markers))) =
      (if k \<in> set (map fst markers) \<and> \<not> has_key maps k then [Console server (Dmarker_delete k)] else [])"
    by (rule for_id_deletes[OF assms(2)])
  show ?thesis
  proof (cases "map_of dn k")
    case None
    then show ?thesis using upd del out by (auto simp: for_id_append has_key_def)
  next
    case (Some d)
    then have m: "map_of maps k = Some d" using prefix_keys(2)[OF dn assms(1)] by simp
    then have "has_key maps k" by (simp add: has_key_map_of)
    then show ?thesis using upd del out Some m by (auto simp: for_id_append)
  qed
qed

lemma reconcile_for_id_Returned:
  assumes "distinct (map fst maps)" "distinct (map fst markers)"
    and "reconcile server world markerSet maps markers [] = (out, Returned)"
  shows "for_id k out =
     (case map_of maps k of
        None \<Rightarrow> if has_key markers k then [Console server (Dmarker_delete k)] else []
      | Some d \<Rightarrow> item_effects server world markerSet markers (k, d))"
proof -
  from reconcile_out[OF assms(3)] have out:
    "out = map (\<lambda>k. Console server (Dmarker_delete k)) (filter (\<lambda>k. \<not> has_key maps k) (map fst markers))
           @ concat (map (item_effects server world markerSet markers) maps)"
    by auto
  have upd: "for_id k (concat (map (item_effects server world markerSet markers) maps)) =
      (case map_of maps k of None \<Rightarrow> [] | Some d \<Rightarrow> item_effects server world markerSet markers (k, d))"
    by (rule for_id_concat[OF item_effects_target assms(1)])
  have del: "for_id k (map (\<lambda>k. Console server (Dmarker_delete k)) (filter (\<lambda>k. \<not> has_key maps k) (map fst markers))) =
      (if k \<in> set (map fst markers) \<and> \<not> has_key maps k then [Console server (Dmarker_delete k)] else [])"
    by (rule for_id_deletes[OF assms(2)])
  show ?thesis
  proof (cases "map_of maps k")
    case None
    then have "\<not> has_key maps k" by (simp add: has_key_map_of)
    then show ?thesis using None upd del out by (simp add: for_id_append has_key_def)
  next
    case (Some d)
    then have "has_key maps k" by (simp add: has_key_map_of)
    then show ?thesis using Some upd del out by (simp add: for_id_append)
  qed
qed

lemma coords_differ_numeric:
  assumes "numeric_marker marker"
  shows "coords_differ (x, z) marker = Inr (marker_coords marker \<noteq> (Inr x, Inr MARKER_Y, Inr z))"
  using assms
  by (auto simp: numeric_marker_def marker_coords_def coords_differ_def split: sum.splits)

lemma marker_table_lookup:
  "marker_table markers \<Longrightarrow> map_of markers k = Some marker \<Longrightarrow> numeric_marker marker"
  by (auto simp: marker_table_def list_all_iff dest: map_of_SomeD)

lemma item_effects_numeric:
  assumes "marker_table markers"
  shows "update_marker server world markerSet markers (k, x, z) [] =
     Inr (case map_of markers k of
        None \<Rightarrow> [Console server (Dmarker_add k markerSet x MARKER_Y z world)]
      | Some marker \<Rightarrow>
          if marker_coords marker = (Inr x, Inr MARKER_Y, Inr z) then []
          else [Console server (Dmarker_delete k), Console server (Dmarker_add k markerSet x MARKER_Y z world)])"
proof (cases "map_of markers k")
  case None
  then show ?thesis
    by (simp add: update_marker_def has_key_map_of addMarker_def serverCommand_def)
next
  case (Some marker)
  then have "numeric_marker marker" using assms marker_table_lookup by blast
  then show ?thesis using Some
    by (simp add: update_marker_def has_key_map_of addMarker_def deleteMarker_def serverCommand_def
        coords_differ_numeric)
qed

lemma update_markers_Returned:
  assumes "\<And>item. item \<in> set items \<Longrightarrow> \<exists>cs. update_marker server world markerSet markers item [] = Inr cs"
  shows "snd (update_markers server world markerSet markers items out) = Returned"
  using assms
proof (induction items arbitrary: out)
  case Nil
  then show ?case by simp
next
  case (Cons item rest)
  then obtain cs where "update_marker server world markerSet markers item [] = Inr cs"
    by (meson list.set_intros(1))
  then have "update_marker server world markerSet markers item out = Inr (out @ cs)"
    by (subst update_marker_out) simp
  then show ?case using Cons by simp
qed

lemma reconcile_Returned:
  assumes "marker_table markers"
  shows "snd (reconcile server world markerSet maps markers out) = Returned"
  unfolding reconcile_def
proof (rule update_markers_Returned)
  fix item :: "string \<times> int \<times> int"
  obtain k x z where "item = (k, x, z)" by (cases item) auto
  then show "\<exists>cs. update_marker server world markerSet markers item [] = Inr cs"
    using item_effects_numeric[OF assms] by blast
qed

subsection \<open>Applying the commands\<close>

lemma map_of_dict_set: "map_of (dict_set d k v) = (map_of d)(k \<mapsto> v)"
  by (induction d k v rule: dict_set.induct) auto

lemma map_of_filter_key:
  "map_of (filter (\<lambda>item. fst item \<noteq> k) d) k' = (if k' = k then None else map_of d k')"
  by (induction d) auto

lemma map_of_apply_effect:
  "map_of (apply_effect e t) k = (if target e = Some k then effect_on e else map_of t k)"
proof (cases e)
  case (Console server c)
  then show ?thesis
    by (cases c) (auto simp: target_def effect_on_def map_of_dict_set map_of_filter_key)
qed (simp_all add: target_def)

lemma map_of_apply_effects:
  "map_of (apply_effects out t) k =
     (case for_id k out of [] \<Rightarrow> map_of t k | _ \<Rightarrow> effect_on (last (for_id k out)))"
proof (induction out rule: rev_induct)
  case Nil
  then show ?case by (simp add: apply_effects_def for_id_def)
next
  case (snoc e out)
  have "map_of (apply_effects (out @ [e]) t) k =
      (if target e = Some k then effect_on e else map_of (apply_effects out t) k)"
    by (simp add: apply_effects_def map_of_apply_effect)
  then show ?case using snoc
    by (auto simp: for_id_def split: list.splits)
qed

lemma numeric_new_marker: "marker_coords (new_marker world k x y z) = (Inr x, Inr y, Inr z)"
  by (simp add: marker_coords_def marker_int_def py_getitem_def py_int_def new_marker_def)

lemma reconcile_nothing:
  assumes keys: "\<And>k. has_key table k \<Longrightarrow> has_key maps k"
    and same: "\<And>k x z. (k, x, z) \<in> set maps \<Longrightarrow>
       \<exists>marker. map_of table k = Some marker \<and> marker_coords marker = (Inr x, Inr MARKER_Y, Inr z)"
  shows "reconcile server world markerSet maps table [] = ([], Returned)"
proof -
  have "filter (\<lambda>k. \<not> has_key maps k) (map fst table) = []"
    using keys by (auto simp: filter_empty_conv has_key_def)
  then have del: "delete_unused_markers server maps table [] = []"
    by (simp add: delete_unused_markers_out)
  have upd: "update_markers server world markerSet table items [] = ([], Returned)"
    if "set items \<subseteq> set maps" for items
    using that
  proof (induction items)
    case Nil
    then show ?case by simp
  next
    case (Cons item items)
    obtain k x z where item: "item = (k, x, z)" by (cases item) auto
    with Cons.prems have "(k, x, z) \<in> set maps" by simp
    from same[OF this] obtain marker where m: "map_of table k = Some marker"
      "marker_coords marker = (Inr x, Inr MARKER_Y, Inr z)" by blast
    then have "coords_differ (x, z) marker = Inr False"
      by (simp add: coords_differ_def marker_coords_def)
    then have "update_marker server world markerSet table item [] = Inr []"
      using m by (simp add: update_marker_def item has_key_map_of)
    then show ?case using Cons by simp
  qed
  show ?thesis using upd[of maps] del by (simp add: reconcile_def)
qed

subsection \<open>Properties of the reconciliation loops\<close>

text \<open>
  C4. In the commands of one run (whether it ends or raises), the commands aimed at one
  marker id are nothing, one delete, one add, or one delete followed by one add: no add
  comes before a delete of the same id, and no id gets two adds or two deletes. The
  tables are dicts (no repeated key).
\<close>

theorem action_shape_per_id:
  assumes "distinct (map fst maps)" and "distinct (map fst markers)"
    and "reconcile server world markerSet maps markers [] = (out, oc)"
  shows "\<exists>x z.
     for_id k out = [] \<or>
     for_id k out = [Console server (Dmarker_delete k)] \<or>
     for_id k out = [Console server (Dmarker_add k markerSet x MARKER_Y z world)] \<or>
     for_id k out = [Console server (Dmarker_delete k),
                     Console server (Dmarker_add k markerSet x MARKER_Y z world)]"
proof -
  consider "for_id k out = []"
    | "for_id k out = [Console server (Dmarker_delete k)]"
    | d where "for_id k out = item_effects server world markerSet markers (k, d)"
    using reconcile_for_id[OF assms, of k] by blast
  then show ?thesis
  proof cases
    case 3
    obtain x z where "d = (x, z)" by (cases d)
    then show ?thesis
      using 3 item_effects_cases[of server world markerSet markers k x z] by auto
  qed auto
qed

theorem action_shape_per_id_witness:
  "distinct (map fst [(''5'', (100 :: int, - 200 :: int)), (''9'', (0, 0))]) \<and>
   distinct (map fst [(''5'', new_marker ''world'' ''5'' 50 64 (- 200)),
                      (''3'', new_marker ''world'' ''3'' 1 64 1)]) \<and>
   reconcile ''pve'' ''world'' ''markers'' [(''5'', (100, - 200)), (''9'', (0, 0))]
     [(''5'', new_marker ''world'' ''5'' 50 64 (- 200)), (''3'', new_marker ''world'' ''3'' 1 64 1)] [] =
     ([Console ''pve'' (Dmarker_delete ''3''),
       Console ''pve'' (Dmarker_delete ''5''),
       Console ''pve'' (Dmarker_add ''5'' ''markers'' 100 64 (- 200) ''world''),
       Console ''pve'' (Dmarker_add ''9'' ''markers'' 0 64 0 ''world'')], Returned) \<and>
   (\<exists>x z.
     for_id ''5'' [Console ''pve'' (Dmarker_delete ''3''),
       Console ''pve'' (Dmarker_delete ''5''),
       Console ''pve'' (Dmarker_add ''5'' ''markers'' 100 64 (- 200) ''world''),
       Console ''pve'' (Dmarker_add ''9'' ''markers'' 0 64 0 ''world'')] =
       [Console ''pve'' (Dmarker_delete ''5''),
        Console ''pve'' (Dmarker_add ''5'' ''markers'' x MARKER_Y z ''world'')])"
proof -
  have d1: "distinct (map fst [(''5'', (100 :: int, - 200 :: int)), (''9'', (0, 0))])" by simp
  have d2: "distinct (map fst [(''5'', new_marker ''world'' ''5'' 50 64 (- 200)),
                      (''3'', new_marker ''world'' ''3'' 1 64 1)])" by simp
  have r: "reconcile ''pve'' ''world'' ''markers'' [(''5'', (100, - 200)), (''9'', (0, 0))]
     [(''5'', new_marker ''world'' ''5'' 50 64 (- 200)), (''3'', new_marker ''world'' ''3'' 1 64 1)] [] =
     ([Console ''pve'' (Dmarker_delete ''3''),
       Console ''pve'' (Dmarker_delete ''5''),
       Console ''pve'' (Dmarker_add ''5'' ''markers'' 100 64 (- 200) ''world''),
       Console ''pve'' (Dmarker_add ''9'' ''markers'' 0 64 0 ''world'')], Returned)"
    by code_simp
  show ?thesis
    using action_shape_per_id[OF d1 d2 r, of "''5''"] d1 d2 r
    by (auto simp: for_id_def target_def)
qed

lemma reconcile_per_id:
  assumes "distinct (map fst maps)" and "marker_table markers"
    and "reconcile server world markerSet maps markers [] = (out, oc)"
  shows "oc = Returned"
    and "for_id k out =
       (case map_of maps k of
          None \<Rightarrow> if has_key markers k then [Console server (Dmarker_delete k)] else []
        | Some (x, z) \<Rightarrow>
            (case map_of markers k of
               None \<Rightarrow> [Console server (Dmarker_add k markerSet x MARKER_Y z world)]
             | Some marker \<Rightarrow>
                 if marker_coords marker = (Inr x, Inr MARKER_Y, Inr z) then []
                 else [Console server (Dmarker_delete k),
                       Console server (Dmarker_add k markerSet x MARKER_Y z world)]))"
proof -
  show oc: "oc = Returned"
    using reconcile_Returned[OF assms(2), of server world markerSet maps "[]"] assms(3) by simp
  have dm: "distinct (map fst markers)" using assms(2) by (simp add: marker_table_def)
  have ie: "item_effects server world markerSet markers (k, x, z) =
      (case map_of markers k of
         None \<Rightarrow> [Console server (Dmarker_add k markerSet x MARKER_Y z world)]
       | Some marker \<Rightarrow>
           if marker_coords marker = (Inr x, Inr MARKER_Y, Inr z) then []
           else [Console server (Dmarker_delete k),
                 Console server (Dmarker_add k markerSet x MARKER_Y z world)])" for x z
    by (simp add: item_effects_def item_effects_numeric[OF assms(2)])
  show "for_id k out =
       (case map_of maps k of
          None \<Rightarrow> if has_key markers k then [Console server (Dmarker_delete k)] else []
        | Some (x, z) \<Rightarrow>
            (case map_of markers k of
               None \<Rightarrow> [Console server (Dmarker_add k markerSet x MARKER_Y z world)]
             | Some marker \<Rightarrow>
                 if marker_coords marker = (Inr x, Inr MARKER_Y, Inr z) then []
                 else [Console server (Dmarker_delete k),
                       Console server (Dmarker_add k markerSet x MARKER_Y z world)]))"
    using reconcile_for_id_Returned[OF assms(1) dm assms(3)[unfolded oc], of k] ie
    by (auto split: option.splits)
qed

lemma reconcile_targets:
  assumes "reconcile server world markerSet maps markers [] = (out, oc)" and "e \<in> set out"
  shows "\<exists>k. target e = Some k"
proof -
  from reconcile_out[OF assms(1)] obtain dn where
    out: "out = map (\<lambda>k. Console server (Dmarker_delete k)) (filter (\<lambda>k. \<not> has_key maps k) (map fst markers))
           @ concat (map (item_effects server world markerSet markers) dn)"
    by blast
  from assms(2) consider k where "e = Console server (Dmarker_delete k)"
    | item where "e \<in> set (item_effects server world markerSet markers item)"
    unfolding out by auto
  then show ?thesis
  proof cases
    case 1
    then show ?thesis by (simp add: target_def)
  next
    case 2
    then show ?thesis using item_effects_target by blast
  qed
qed


lemma whole_number_py_int: "whole_number v = Some i \<Longrightarrow> py_int v = Inr i"
proof (cases v)
  case (YFloat r)
  assume "whole_number v = Some i"
  then have r: "of_int i = r" "i = \<lfloor>r\<rfloor>"
    by (auto simp: whole_number_def YFloat split: if_splits)
  have "py_trunc (of_int i) = i"
  proof (cases "i < 0")
    case True
    have "\<lfloor>- (of_int i :: rat)\<rfloor> = - i" by (metis floor_of_int of_int_minus)
    then show ?thesis using True by (simp add: py_trunc_def)
  next
    case False
    then show ?thesis by (simp add: py_trunc_def)
  qed
  then have "py_trunc r = i" unfolding r(1) .
  then show ?thesis by (simp add: py_int_def YFloat)
qed (simp_all add: whole_number_def py_int_def)

lemma marker_xyz_coords:
  assumes "marker_xyz marker = Some (a, b, c)"
  shows "marker_coords marker = (Inr a, Inr b, Inr c)"
proof -
  from assms obtain vx vy vz where
    g: "py_getitem marker ''x'' = Inr vx" "py_getitem marker ''y'' = Inr vy" "py_getitem marker ''z'' = Inr vz"
    and w: "whole_number vx = Some a" "whole_number vy = Some b" "whole_number vz = Some c"
    by (auto simp: marker_xyz_def split: sum.splits option.splits)
  show ?thesis
    using g whole_number_py_int[OF w(1)] whole_number_py_int[OF w(2)] whole_number_py_int[OF w(3)]
    by (simp add: marker_coords_def marker_int_def)
qed

lemma integer_markers_lookup:
  assumes "integer_markers markers" and "map_of markers k = Some marker"
  shows "\<exists>a b c. marker_xyz marker = Some (a, b, c)"
proof -
  have "(k, marker) \<in> set markers" using assms(2) by (rule map_of_SomeD)
  then have "marker_xyz marker \<noteq> None"
    using assms(1) by (auto simp: integer_markers_def list_all_iff)
  then show ?thesis by (cases "marker_xyz marker") auto
qed

lemma integer_markers_table: "integer_markers markers \<Longrightarrow> marker_table markers"
proof -
  assume a: "integer_markers markers"
  have "numeric_marker (snd item)" if "item \<in> set markers" for item
  proof -
    have "marker_xyz (snd item) \<noteq> None" using a that by (simp add: integer_markers_def list_all_iff)
    then obtain a' b c where "marker_xyz (snd item) = Some (a', b, c)"
      by (cases "marker_xyz (snd item)") auto
    then show ?thesis by (simp add: numeric_marker_def marker_xyz_coords)
  qed
  then show ?thesis using a by (simp add: integer_markers_def marker_table_def list_all_iff)
qed

lemma marker_xyz_new_marker: "marker_xyz (new_marker world k x y z) = Some (x, y, z)"
  by (simp add: marker_xyz_def new_marker_def py_getitem_def whole_number_def)

text \<open>
  C1. \<open>MARKER_Y\<close> is 64. Given a map table and a marker table (dicts; the markers have
  whole-number coordinates), the run ends normally and sends only delete and add commands;
  for every id, the commands aimed at it are: one delete when the id is in the marker
  table and not in the map table; one add at \<open>(x, MARKER_Y, z)\<close> when the id is in the map
  table with \<open>(x, z)\<close> and not in the marker table; a delete followed by that add when it
  is in both and the marker's \<open>(x, y, z)\<close> differs from \<open>(x, MARKER_Y, z)\<close> in any
  coordinate; nothing when they are the same; nothing when the id is in neither table.
\<close>

theorem reconcile_actions:
  assumes "distinct (map fst maps)" and "integer_markers markers"
  shows "MARKER_Y = 64 \<and>
     (\<exists>out. reconcile server world markerSet maps markers [] = (out, Returned) \<and>
       (\<forall>e \<in> set out. \<exists>k. target e = Some k) \<and>
       (\<forall>k. for_id k out =
          (case map_of maps k of
             None \<Rightarrow> if has_key markers k then [Console server (Dmarker_delete k)] else []
           | Some (x, z) \<Rightarrow>
               (case map_of markers k of
                  None \<Rightarrow> [Console server (Dmarker_add k markerSet x MARKER_Y z world)]
                | Some marker \<Rightarrow>
                    if marker_xyz marker = Some (x, MARKER_Y, z) then []
                    else [Console server (Dmarker_delete k),
                          Console server (Dmarker_add k markerSet x MARKER_Y z world)]))))"
proof -
  have mt: "marker_table markers" using assms(2) by (rule integer_markers_table)
  obtain out oc where r: "reconcile server world markerSet maps markers [] = (out, oc)"
    by (cases "reconcile server world markerSet maps markers []")
  have oc: "oc = Returned" using reconcile_per_id(1)[OF assms(1) mt r] .
  have same: "(marker_coords marker = (Inr x, Inr MARKER_Y, Inr z)) =
      (marker_xyz marker = Some (x, MARKER_Y, z))"
    if "map_of markers k = Some marker" for k marker x z
  proof -
    from integer_markers_lookup[OF assms(2) that] obtain a b c where
      m: "marker_xyz marker = Some (a, b, c)" by blast
    show ?thesis using marker_xyz_coords[OF m] m by simp
  qed
  have "for_id k out =
      (case map_of maps k of
         None \<Rightarrow> if has_key markers k then [Console server (Dmarker_delete k)] else []
       | Some (x, z) \<Rightarrow>
           (case map_of markers k of
              None \<Rightarrow> [Console server (Dmarker_add k markerSet x MARKER_Y z world)]
            | Some marker \<Rightarrow>
                if marker_xyz marker = Some (x, MARKER_Y, z) then []
                else [Console server (Dmarker_delete k),
                      Console server (Dmarker_add k markerSet x MARKER_Y z world)]))" for k
    using reconcile_per_id(2)[OF assms(1) mt r, of k] same[of k]
    by (auto split: option.splits)
  then show ?thesis
    using r[unfolded oc] reconcile_targets[OF r]
    by (simp add: MARKER_Y_def)
qed

theorem reconcile_actions_witness:
  "distinct (map fst [(''5'', (100 :: int, - 200 :: int)), (''9'', (0, 0)), (''6'', (7, 8))]) \<and>
   integer_markers [(''5'', new_marker ''world'' ''5'' 50 64 (- 200)),
                    (''3'', new_marker ''world'' ''3'' 1 64 1),
                    (''6'', YMap [(''world'', YStr ''world''), (''label'', YStr ''6''),
                       (''x'', YFloat 7), (''y'', YFloat 64), (''z'', YFloat 8)])] \<and>
   (\<exists>out. reconcile ''pve'' ''world'' ''markers'' [(''5'', (100, - 200)), (''9'', (0, 0)), (''6'', (7, 8))]
       [(''5'', new_marker ''world'' ''5'' 50 64 (- 200)), (''3'', new_marker ''world'' ''3'' 1 64 1),
        (''6'', YMap [(''world'', YStr ''world''), (''label'', YStr ''6''),
           (''x'', YFloat 7), (''y'', YFloat 64), (''z'', YFloat 8)])] [] =
       (out, Returned) \<and>
     for_id ''5'' out = [Console ''pve'' (Dmarker_delete ''5''),
                        Console ''pve'' (Dmarker_add ''5'' ''markers'' 100 64 (- 200) ''world'')] \<and>
     for_id ''9'' out = [Console ''pve'' (Dmarker_add ''9'' ''markers'' 0 64 0 ''world'')] \<and>
     for_id ''3'' out = [Console ''pve'' (Dmarker_delete ''3'')] \<and>
     for_id ''6'' out = [] \<and>
     for_id ''4'' out = [])"
proof -
  have d: "distinct (map fst [(''5'', (100 :: int, - 200 :: int)), (''9'', (0, 0)), (''6'', (7, 8))])"
    by simp
  have x6: "marker_xyz (YMap [(''world'', YStr ''world''), (''label'', YStr ''6''),
                       (''x'', YFloat 7), (''y'', YFloat 64), (''z'', YFloat 8)]) = Some (7, 64, 8)"
    by (simp add: marker_xyz_def py_getitem_def whole_number_def)
  have t: "integer_markers [(''5'', new_marker ''world'' ''5'' 50 64 (- 200)),
                    (''3'', new_marker ''world'' ''3'' 1 64 1),
                    (''6'', YMap [(''world'', YStr ''world''), (''label'', YStr ''6''),
                       (''x'', YFloat 7), (''y'', YFloat 64), (''z'', YFloat 8)])]"
    by (simp add: integer_markers_def marker_xyz_new_marker x6)
  from reconcile_actions[OF d t, of "''pve''" "''world''" "''markers''"]
  obtain out where
    r: "reconcile ''pve'' ''world'' ''markers'' [(''5'', (100, - 200)), (''9'', (0, 0)), (''6'', (7, 8))]
       [(''5'', new_marker ''world'' ''5'' 50 64 (- 200)), (''3'', new_marker ''world'' ''3'' 1 64 1),
        (''6'', YMap [(''world'', YStr ''world''), (''label'', YStr ''6''),
           (''x'', YFloat 7), (''y'', YFloat 64), (''z'', YFloat 8)])] [] =
       (out, Returned)"
    and f: "\<And>k. for_id k out =
          (case map_of [(''5'', (100 :: int, - 200 :: int)), (''9'', (0, 0)), (''6'', (7, 8))] k of
             None \<Rightarrow> if has_key [(''5'', new_marker ''world'' ''5'' 50 64 (- 200)),
                 (''3'', new_marker ''world'' ''3'' 1 64 1),
                 (''6'', YMap [(''world'', YStr ''world''), (''label'', YStr ''6''),
                    (''x'', YFloat 7), (''y'', YFloat 64), (''z'', YFloat 8)])] k
               then [Console ''pve'' (Dmarker_delete k)] else []
           | Some (x, z) \<Rightarrow>
               (case map_of [(''5'', new_marker ''world'' ''5'' 50 64 (- 200)),
                 (''3'', new_marker ''world'' ''3'' 1 64 1),
                 (''6'', YMap [(''world'', YStr ''world''), (''label'', YStr ''6''),
                    (''x'', YFloat 7), (''y'', YFloat 64), (''z'', YFloat 8)])] k of
                  None \<Rightarrow> [Console ''pve'' (Dmarker_add k ''markers'' x MARKER_Y z ''world'')]
                | Some marker \<Rightarrow>
                    if marker_xyz marker = Some (x, MARKER_Y, z) then []
                    else [Console ''pve'' (Dmarker_delete k),
                          Console ''pve'' (Dmarker_add k ''markers'' x MARKER_Y z ''world'')]))"
    by blast
  have "for_id ''5'' out = [Console ''pve'' (Dmarker_delete ''5''),
                        Console ''pve'' (Dmarker_add ''5'' ''markers'' 100 64 (- 200) ''world'')]"
    by (simp add: f marker_xyz_new_marker MARKER_Y_def)
  moreover have "for_id ''9'' out = [Console ''pve'' (Dmarker_add ''9'' ''markers'' 0 64 0 ''world'')]"
    by (simp add: f MARKER_Y_def)
  moreover have "for_id ''3'' out = [Console ''pve'' (Dmarker_delete ''3'')]"
    by (simp add: f has_key_def)
  moreover have "for_id ''6'' out = []"
    by (simp add: f x6 MARKER_Y_def)
  moreover have "for_id ''4'' out = []"
    by (simp add: f has_key_def)
  ultimately show ?thesis using d t r by blast
qed


text \<open>
  C3. When the commands of one run are applied to the marker table (a delete removes the
  id, an add inserts a marker with label = id at the command's coordinates) and the map
  table stays the same, a second run over the new marker table sends nothing and ends
  normally.
\<close>

theorem reconcile_idempotent:
  assumes "distinct (map fst maps)" and "marker_table markers"
    and "reconcile server world markerSet maps markers [] = (out, oc)"
  shows "reconcile server world markerSet maps (apply_effects out markers) [] = ([], Returned)"
proof (rule reconcile_nothing)
  fix k
  assume hk: "has_key (apply_effects out markers) k"
  show "has_key maps k"
  proof (rule ccontr)
    assume "\<not> has_key maps k"
    then have "map_of maps k = None" by (cases "map_of maps k") (auto simp: has_key_map_of)
    then have "for_id k out = (if has_key markers k then [Console server (Dmarker_delete k)] else [])"
      using reconcile_per_id(2)[OF assms, of k] by simp
    then have "map_of (apply_effects out markers) k = None"
      by (auto simp: map_of_apply_effects effect_on_def has_key_map_of)
    then show False using hk by (simp add: has_key_map_of)
  qed
next
  fix k x z
  assume "(k, x, z) \<in> set maps"
  then have m: "map_of maps k = Some (x, z)" using assms(1) by simp
  show "\<exists>marker. map_of (apply_effects out markers) k = Some marker \<and>
      marker_coords marker = (Inr x, Inr MARKER_Y, Inr z)"
  proof (cases "map_of markers k")
    case None
    then have "for_id k out = [Console server (Dmarker_add k markerSet x MARKER_Y z world)]"
      using reconcile_per_id(2)[OF assms, of k] m by simp
    then show ?thesis
      by (simp add: map_of_apply_effects effect_on_def numeric_new_marker)
  next
    case (Some marker)
    show ?thesis
    proof (cases "marker_coords marker = (Inr x, Inr MARKER_Y, Inr z)")
      case True
      then have "for_id k out = []"
        using reconcile_per_id(2)[OF assms, of k] m Some by simp
      then show ?thesis using Some True by (simp add: map_of_apply_effects)
    next
      case False
      then have "for_id k out = [Console server (Dmarker_delete k),
          Console server (Dmarker_add k markerSet x MARKER_Y z world)]"
        using reconcile_per_id(2)[OF assms, of k] m Some by simp
      then show ?thesis
        by (simp add: map_of_apply_effects effect_on_def numeric_new_marker)
    qed
  qed
qed

theorem reconcile_idempotent_witness:
  "distinct (map fst [(''5'', (100 :: int, - 200 :: int)), (''9'', (0, 0))]) \<and>
   marker_table [(''5'', new_marker ''world'' ''5'' 50 64 (- 200)),
                 (''3'', new_marker ''world'' ''3'' 1 64 1)] \<and>
   reconcile ''pve'' ''world'' ''markers'' [(''5'', (100, - 200)), (''9'', (0, 0))]
     [(''5'', new_marker ''world'' ''5'' 50 64 (- 200)), (''3'', new_marker ''world'' ''3'' 1 64 1)] [] =
     ([Console ''pve'' (Dmarker_delete ''3''),
       Console ''pve'' (Dmarker_delete ''5''),
       Console ''pve'' (Dmarker_add ''5'' ''markers'' 100 64 (- 200) ''world''),
       Console ''pve'' (Dmarker_add ''9'' ''markers'' 0 64 0 ''world'')], Returned) \<and>
   apply_effects [Console ''pve'' (Dmarker_delete ''3''),
       Console ''pve'' (Dmarker_delete ''5''),
       Console ''pve'' (Dmarker_add ''5'' ''markers'' 100 64 (- 200) ''world''),
       Console ''pve'' (Dmarker_add ''9'' ''markers'' 0 64 0 ''world'')]
     [(''5'', new_marker ''world'' ''5'' 50 64 (- 200)), (''3'', new_marker ''world'' ''3'' 1 64 1)] =
     [(''5'', new_marker ''world'' ''5'' 100 64 (- 200)), (''9'', new_marker ''world'' ''9'' 0 64 0)] \<and>
   reconcile ''pve'' ''world'' ''markers'' [(''5'', (100, - 200)), (''9'', (0, 0))]
     [(''5'', new_marker ''world'' ''5'' 100 64 (- 200)), (''9'', new_marker ''world'' ''9'' 0 64 0)] [] =
     ([], Returned)"
proof -
  have d: "distinct (map fst [(''5'', (100 :: int, - 200 :: int)), (''9'', (0, 0))])" by simp
  have t: "marker_table [(''5'', new_marker ''world'' ''5'' 50 64 (- 200)),
                 (''3'', new_marker ''world'' ''3'' 1 64 1)]"
    by (simp add: marker_table_def numeric_marker_def numeric_new_marker)
  have r: "reconcile ''pve'' ''world'' ''markers'' [(''5'', (100, - 200)), (''9'', (0, 0))]
     [(''5'', new_marker ''world'' ''5'' 50 64 (- 200)), (''3'', new_marker ''world'' ''3'' 1 64 1)] [] =
     ([Console ''pve'' (Dmarker_delete ''3''),
       Console ''pve'' (Dmarker_delete ''5''),
       Console ''pve'' (Dmarker_add ''5'' ''markers'' 100 64 (- 200) ''world''),
       Console ''pve'' (Dmarker_add ''9'' ''markers'' 0 64 0 ''world'')], Returned)"
    by code_simp
  have a: "apply_effects [Console ''pve'' (Dmarker_delete ''3''),
       Console ''pve'' (Dmarker_delete ''5''),
       Console ''pve'' (Dmarker_add ''5'' ''markers'' 100 64 (- 200) ''world''),
       Console ''pve'' (Dmarker_add ''9'' ''markers'' 0 64 0 ''world'')]
     [(''5'', new_marker ''world'' ''5'' 50 64 (- 200)), (''3'', new_marker ''world'' ''3'' 1 64 1)] =
     [(''5'', new_marker ''world'' ''5'' 100 64 (- 200)), (''9'', new_marker ''world'' ''9'' 0 64 0)]"
    by (simp add: apply_effects_def)
  show ?thesis
    using reconcile_idempotent[OF d t r] d t r a by simp
qed

subsection \<open>The marker loader\<close>

lemma dict_set_fresh: "k \<notin> set (map fst d) \<Longrightarrow> dict_set d k v = d @ [(k, v)]"
  by (induction d) auto

lemma loadMarkers_loop_filter:
  assumes "loadMarkers_loop world items result = Inr table"
    and "distinct (map fst items)" and "set (map fst items) \<inter> set (map fst result) = {}"
  shows "table = result @ filter (managed world) items"
  using assms
proof (induction items arbitrary: result)
  case Nil
  then show ?case by simp
next
  case (Cons item items)
  obtain k marker where item: "item = (k, marker)" by (cases item)
  from Cons.prems(1) obtain w where w: "py_getitem marker ''world'' = Inr w"
    by (auto simp: item split: sum.splits)
  show ?case
  proof (cases "py_eq_str w world")
    case False
    then have "\<not> managed world item" by (simp add: managed_def item w)
    moreover have "loadMarkers_loop world items result = Inr table"
      using Cons.prems(1) False by (simp add: item w)
    ultimately show ?thesis using Cons.IH[of result] Cons.prems(2,3) by auto
  next
    case True
    with Cons.prems(1) obtain l where l: "py_getitem marker ''label'' = Inr l"
      by (auto simp: item w split: sum.splits)
    show ?thesis
    proof (cases "py_eq_str l k")
      case False
      then have "\<not> managed world item" by (simp add: managed_def item l)
      moreover have "loadMarkers_loop world items result = Inr table"
        using Cons.prems(1) True False by (simp add: item w l)
      ultimately show ?thesis using Cons.IH[of result] Cons.prems(2,3) by auto
    next
      case lk: True
      have m: "managed world item" using True lk by (simp add: managed_def item w l)
      have fresh: "k \<notin> set (map fst result)" using Cons.prems(3) by (auto simp: item)
      have "loadMarkers_loop world items (result @ [(k, marker)]) = Inr table"
        using Cons.prems(1) True lk by (simp add: item w l dict_set_fresh[OF fresh])
      moreover have "set (map fst items) \<inter> set (map fst (result @ [(k, marker)])) = {}"
        using Cons.prems(2,3) by (auto simp: item)
      ultimately have "table = (result @ [(k, marker)]) @ filter (managed world) items"
        using Cons.IH[of "result @ [(k, marker)]"] Cons.prems(2) by simp
      then show ?thesis using m by (simp add: item)
    qed
  qed
qed

lemma loadMarkers_Inr:
  assumes "loadMarkers (Parsed doc) markersFileName markerSet world = Inr table"
  shows "\<exists>items. set_items doc markerSet = Inr items \<and> loadMarkers_loop world items [] = Inr table"
  using assms
  by (auto simp: loadMarkers_def split: sum.splits if_splits)

lemma excluded_for_id:
  assumes "distinct (map fst maps)" and "distinct (map fst table)" and "\<not> has_key table k"
    and "reconcile server world markerSet maps table [] = (out, oc)"
  shows "for_id k out = [] \<or>
     (\<exists>x z. map_of maps k = Some (x, z) \<and>
        for_id k out = [Console server (Dmarker_add k markerSet x MARKER_Y z world)])"
proof -
  consider "for_id k out = []"
    | "has_key table k"
    | d where "map_of maps k = Some d" "for_id k out = item_effects server world markerSet table (k, d)"
    using reconcile_for_id[OF assms(1,2,4), of k] by blast
  then show ?thesis
  proof cases
    case 3
    obtain x z where d: "d = (x, z)" by (cases d)
    have "item_effects server world markerSet table (k, x, z) =
        [Console server (Dmarker_add k markerSet x MARKER_Y z world)]"
      using assms(3) by (simp add: item_effects_def update_marker_def addMarker_def serverCommand_def)
    then show ?thesis using 3 d by simp
  qed (use assms(3) in auto)
qed

text \<open>
  C5, as it is written, fails in its last part: a marker that \<^verbatim>\<open>loadMarkers\<close> leaves out
  is unknown to the loops, so when a map has the same id the second loop sends an add for
  that id. The marker set holds a marker with id 5 and label Home; it is left out of the
  table; map 5 exists, and the run sends an add command whose id is 5.
\<close>

theorem loadMarkers_filter_counterexample:
  "loadMarkers
     (Parsed (YMap [(''sets'', YMap [(''markers'', YMap [(''markers'',
        YMap [(''5'', YMap [(''world'', YStr ''world''), (''label'', YStr ''Home''),
                (''x'', YFloat 10), (''y'', YFloat 64), (''z'', YFloat 10)])])])])]))
     ''markers.yml'' ''markers'' ''world'' = Inr [] \<and>
   reconcile ''pve'' ''world'' ''markers'' [(''5'', (100, - 200))] [] [] =
     ([Console ''pve'' (Dmarker_add ''5'' ''markers'' 100 64 (- 200) ''world'')], Returned) \<and>
   target (Console ''pve'' (Dmarker_add ''5'' ''markers'' 100 64 (- 200) ''world'')) = Some ''5''"
proof -
  have "loadMarkers
     (Parsed (YMap [(''sets'', YMap [(''markers'', YMap [(''markers'',
        YMap [(''5'', YMap [(''world'', YStr ''world''), (''label'', YStr ''Home''),
                (''x'', YFloat 10), (''y'', YFloat 64), (''z'', YFloat 10)])])])])]))
     ''markers.yml'' ''markers'' ''world'' = Inr []"
    by (simp add: loadMarkers_def py_contains_def has_key_def set_items_def py_getitem_def py_items_def
        py_eq_str_def)
  moreover have "reconcile ''pve'' ''world'' ''markers'' [(''5'', (100, - 200))] [] [] =
     ([Console ''pve'' (Dmarker_add ''5'' ''markers'' 100 64 (- 200) ''world'')], Returned)"
    by (simp add: reconcile_def update_marker_def has_key_def addMarker_def serverCommand_def MARKER_Y_def)
  ultimately show ?thesis by (simp add: target_def)
qed

text \<open>
  C5 (amended). When \<^verbatim>\<open>loadMarkers\<close> returns, its table holds exactly the markers under
  \<^verbatim>\<open>sets[markerSet].markers\<close> whose world is the target world and whose label is their
  id, in the order of the file. Every other marker of the set is absent from the table;
  no delete command of a run over that table has its id; and the commands aimed at its id
  are none, or one add, the latter only when the map table has that id.
\<close>

theorem loadMarkers_filter:
  assumes "loadMarkers (Parsed doc) markersFileName markerSet world = Inr table"
    and "set_items doc markerSet = Inr items" and "distinct (map fst items)"
    and "distinct (map fst maps)"
    and "reconcile server world markerSet maps table [] = (out, oc)"
  shows "table = filter (managed world) items \<and>
     (\<forall>item \<in> set items. \<not> managed world item \<longrightarrow>
        \<not> has_key table (fst item) \<and>
        Console server (Dmarker_delete (fst item)) \<notin> set out \<and>
        (for_id (fst item) out = [] \<or>
         (\<exists>x z. map_of maps (fst item) = Some (x, z) \<and>
            for_id (fst item) out = [Console server (Dmarker_add (fst item) markerSet x MARKER_Y z world)])))"
proof -
  from loadMarkers_Inr[OF assms(1)] assms(2) have "loadMarkers_loop world items [] = Inr table"
    by simp
  from loadMarkers_loop_filter[OF this assms(3)] have table: "table = filter (managed world) items"
    by simp
  have dt: "distinct (map fst table)" unfolding table using assms(3) by (simp add: distinct_map_filter)
  have excl: "\<not> has_key table (fst item)" if "item \<in> set items" "\<not> managed world item" for item
  proof
    assume "has_key table (fst item)"
    then obtain item' where i': "item' \<in> set items" "managed world item'" "fst item' = fst item"
      unfolding table has_key_def by auto
    then have "item' = item" using assms(3) that(1)
      by (meson distinct_map inj_onD)
    then show False using i' that by simp
  qed
  have nodel: "Console server (Dmarker_delete k) \<notin> set out" if "\<not> has_key table k" for k
  proof
    assume "Console server (Dmarker_delete k) \<in> set out"
    then have "Console server (Dmarker_delete k) \<in> set (for_id k out)"
      by (simp add: for_id_def target_def)
    then show False using excluded_for_id[OF assms(4) dt that assms(5)] by auto
  qed
  show ?thesis using table excl nodel excluded_for_id[OF assms(4) dt _ assms(5)] by blast
qed

theorem loadMarkers_filter_witness:
  "loadMarkers
     (Parsed (YMap [(''sets'', YMap [(''markers'', YMap [(''markers'',
        YMap [(''5'', YMap [(''world'', YStr ''world''), (''label'', YStr ''Home''),
                (''x'', YFloat 10), (''y'', YFloat 64), (''z'', YFloat 10)]),
              (''7'', new_marker ''world'' ''7'' 0 64 0),
              (''8'', new_marker ''world_nether'' ''8'' 0 64 0)])])])]))
     ''markers.yml'' ''markers'' ''world'' = Inr [(''7'', new_marker ''world'' ''7'' 0 64 0)] \<and>
   set_items (YMap [(''sets'', YMap [(''markers'', YMap [(''markers'',
        YMap [(''5'', YMap [(''world'', YStr ''world''), (''label'', YStr ''Home''),
                (''x'', YFloat 10), (''y'', YFloat 64), (''z'', YFloat 10)]),
              (''7'', new_marker ''world'' ''7'' 0 64 0),
              (''8'', new_marker ''world_nether'' ''8'' 0 64 0)])])])]) ''markers'' =
     Inr [(''5'', YMap [(''world'', YStr ''world''), (''label'', YStr ''Home''),
                (''x'', YFloat 10), (''y'', YFloat 64), (''z'', YFloat 10)]),
          (''7'', new_marker ''world'' ''7'' 0 64 0),
          (''8'', new_marker ''world_nether'' ''8'' 0 64 0)] \<and>
   reconcile ''pve'' ''world'' ''markers'' [(''5'', (100, - 200))]
     [(''7'', new_marker ''world'' ''7'' 0 64 0)] [] =
     ([Console ''pve'' (Dmarker_delete ''7''),
       Console ''pve'' (Dmarker_add ''5'' ''markers'' 100 64 (- 200) ''world'')], Returned) \<and>
   [(''7'', new_marker ''world'' ''7'' 0 64 0)] =
     filter (managed ''world'')
       [(''5'', YMap [(''world'', YStr ''world''), (''label'', YStr ''Home''),
                (''x'', YFloat 10), (''y'', YFloat 64), (''z'', YFloat 10)]),
        (''7'', new_marker ''world'' ''7'' 0 64 0),
        (''8'', new_marker ''world_nether'' ''8'' 0 64 0)] \<and>
   Console ''pve'' (Dmarker_delete ''8'') \<notin>
     set [Console ''pve'' (Dmarker_delete ''7''),
          Console ''pve'' (Dmarker_add ''5'' ''markers'' 100 64 (- 200) ''world'')]"
proof -
  have l: "loadMarkers
     (Parsed (YMap [(''sets'', YMap [(''markers'', YMap [(''markers'',
        YMap [(''5'', YMap [(''world'', YStr ''world''), (''label'', YStr ''Home''),
                (''x'', YFloat 10), (''y'', YFloat 64), (''z'', YFloat 10)]),
              (''7'', new_marker ''world'' ''7'' 0 64 0),
              (''8'', new_marker ''world_nether'' ''8'' 0 64 0)])])])]))
     ''markers.yml'' ''markers'' ''world'' = Inr [(''7'', new_marker ''world'' ''7'' 0 64 0)]"
    by (simp add: loadMarkers_def py_contains_def has_key_def set_items_def py_getitem_def py_items_def
        py_eq_str_def new_marker_def)
  have s: "set_items (YMap [(''sets'', YMap [(''markers'', YMap [(''markers'',
        YMap [(''5'', YMap [(''world'', YStr ''world''), (''label'', YStr ''Home''),
                (''x'', YFloat 10), (''y'', YFloat 64), (''z'', YFloat 10)]),
              (''7'', new_marker ''world'' ''7'' 0 64 0),
              (''8'', new_marker ''world_nether'' ''8'' 0 64 0)])])])]) ''markers'' =
     Inr [(''5'', YMap [(''world'', YStr ''world''), (''label'', YStr ''Home''),
                (''x'', YFloat 10), (''y'', YFloat 64), (''z'', YFloat 10)]),
          (''7'', new_marker ''world'' ''7'' 0 64 0),
          (''8'', new_marker ''world_nether'' ''8'' 0 64 0)]"
    by (simp add: set_items_def py_getitem_def py_items_def)
  have di: "distinct (map fst [(''5'', YMap [(''world'', YStr ''world''), (''label'', YStr ''Home''),
                (''x'', YFloat 10), (''y'', YFloat 64), (''z'', YFloat 10)]),
          (''7'', new_marker ''world'' ''7'' 0 64 0),
          (''8'', new_marker ''world_nether'' ''8'' 0 64 0)])" by simp
  have dm: "distinct (map fst [(''5'', (100 :: int, - 200 :: int))])" by simp
  have r: "reconcile ''pve'' ''world'' ''markers'' [(''5'', (100, - 200))]
     [(''7'', new_marker ''world'' ''7'' 0 64 0)] [] =
     ([Console ''pve'' (Dmarker_delete ''7''),
       Console ''pve'' (Dmarker_add ''5'' ''markers'' 100 64 (- 200) ''world'')], Returned)"
    by (simp add: reconcile_def update_marker_def has_key_def addMarker_def deleteMarker_def
        serverCommand_def MARKER_Y_def)
  have nm: "\<not> managed ''world'' (''8'', new_marker ''world_nether'' ''8'' 0 64 0)"
    by (simp add: managed_def new_marker_def py_getitem_def py_eq_str_def)
  from loadMarkers_filter[OF l s di dm r] nm l s r show ?thesis
    by (metis fst_conv list.set_intros(1) list.set_intros(2))
qed

lemma loadMarkers_IOError:
  "\<exists>msg. loadMarkers (Read_raised IOError) markersFileName markerSet world = Inl (SysExit (Error msg) 1)"
  by (simp add: loadMarkers_def)

lemma loadMarkers_without_sets:
  "\<not> has_key d ''sets'' \<Longrightarrow>
   \<exists>msg. loadMarkers (Parsed (YMap d)) markersFileName markerSet world = Inl (SysExit (Error msg) 1)"
  by (simp add: loadMarkers_def py_contains_def)

text \<open>
  C7. A markers file that cannot be opened or read, and a document that is a mapping
  without \<^verbatim>\<open>sets\<close>, end in the message and \<^verbatim>\<open>sys.exit(1)\<close> (the two lemmas above). An
  empty markers file is parsed to \<^verbatim>\<open>None\<close>: it has no \<^verbatim>\<open>sets\<close> key, and the test
  \<^verbatim>\<open>'sets' not in markers\<close> itself raises \<^verbatim>\<open>TypeError\<close>, which nothing catches.
\<close>

theorem loadMarkers_empty_document:
  "loadMarkers (Parsed YNull) ''markers.yml'' ''markers'' ''world'' = Inl (Uncaught TypeError)"
  by (simp add: loadMarkers_def py_contains_def)

lemma loadMarkers_SysExit:
  assumes "loadMarkers file markersFileName markerSet world = Inl (SysExit msg status)"
  shows "status = 1 \<and>
     (file = Read_raised IOError \<or> (\<exists>doc. file = Parsed doc \<and> py_contains doc ''sets'' = Inr False))"
  using assms
  by (cases "file") (auto simp: loadMarkers_def split: sum.splits if_splits)

text \<open>
  C9. When the document is a mapping whose \<^verbatim>\<open>sets\<close> is a mapping without the requested
  marker set, or whose marker set is a mapping without \<^verbatim>\<open>markers\<close>, \<^verbatim>\<open>loadMarkers\<close>
  raises \<^verbatim>\<open>KeyError\<close> and nothing catches it. More generally, once the \<^verbatim>\<open>sets\<close> test has
  passed, every exception on the way to the markers is uncaught. The message followed by
  \<^verbatim>\<open>sys.exit\<close> happens only with status 1, and only when reading raised \<^verbatim>\<open>IOError\<close> or the
  test \<^verbatim>\<open>'sets' in markers\<close> is false.
\<close>

theorem loadMarkers_uncaught_KeyError:
  "(map_of d ''sets'' = Some (YMap sets) \<and> \<not> has_key sets markerSet \<longrightarrow>
      loadMarkers (Parsed (YMap d)) markersFileName markerSet world = Inl (Uncaught KeyError)) \<and>
   (map_of d ''sets'' = Some (YMap sets) \<and> map_of sets markerSet = Some (YMap s) \<and>
      \<not> has_key s ''markers'' \<longrightarrow>
      loadMarkers (Parsed (YMap d)) markersFileName markerSet world = Inl (Uncaught KeyError)) \<and>
   (py_contains doc ''sets'' = Inr True \<and> set_items doc markerSet = Inl e \<longrightarrow>
      loadMarkers (Parsed doc) markersFileName markerSet world = Inl (Uncaught e)) \<and>
   (loadMarkers file markersFileName markerSet world = Inl (SysExit msg status) \<longrightarrow>
      status = 1 \<and>
      (file = Read_raised IOError \<or> (\<exists>doc. file = Parsed doc \<and> py_contains doc ''sets'' = Inr False)))"
proof (intro conjI impI)
  assume a: "map_of d ''sets'' = Some (YMap sets) \<and> \<not> has_key sets markerSet"
  then have "has_key d ''sets''" by (simp add: has_key_map_of)
  moreover have "map_of sets markerSet = None" using a by (cases "map_of sets markerSet") (auto simp: has_key_map_of)
  ultimately show "loadMarkers (Parsed (YMap d)) markersFileName markerSet world = Inl (Uncaught KeyError)"
    using a by (simp add: loadMarkers_def py_contains_def set_items_def py_getitem_def)
next
  assume a: "map_of d ''sets'' = Some (YMap sets) \<and> map_of sets markerSet = Some (YMap s) \<and>
      \<not> has_key s ''markers''"
  then have "has_key d ''sets''" by (simp add: has_key_map_of)
  moreover have "map_of s ''markers'' = None" using a by (cases "map_of s ''markers''") (auto simp: has_key_map_of)
  ultimately show "loadMarkers (Parsed (YMap d)) markersFileName markerSet world = Inl (Uncaught KeyError)"
    using a by (simp add: loadMarkers_def py_contains_def set_items_def py_getitem_def)
next
  assume "py_contains doc ''sets'' = Inr True \<and> set_items doc markerSet = Inl e"
  then show "loadMarkers (Parsed doc) markersFileName markerSet world = Inl (Uncaught e)"
    by (simp add: loadMarkers_def)
next
  assume "loadMarkers file markersFileName markerSet world = Inl (SysExit msg status)"
  from loadMarkers_SysExit[OF this] show "status = 1" by simp
next
  assume "loadMarkers file markersFileName markerSet world = Inl (SysExit msg status)"
  from loadMarkers_SysExit[OF this]
  show "file = Read_raised IOError \<or> (\<exists>doc. file = Parsed doc \<and> py_contains doc ''sets'' = Inr False)"
    by simp
qed

theorem loadMarkers_uncaught_KeyError_witness:
  "map_of [(''sets'', YMap [(''other'', YMap [])])] ''sets'' = Some (YMap [(''other'', YMap [])]) \<and>
   \<not> has_key [(''other'', YMap [])] ''markers'' \<and>
   loadMarkers (Parsed (YMap [(''sets'', YMap [(''other'', YMap [])])])) ''markers.yml'' ''markers'' ''world'' =
     Inl (Uncaught KeyError) \<and>
   map_of [(''sets'', YMap [(''other'', YMap [])])] ''sets'' = Some (YMap [(''other'', YMap [])]) \<and>
   map_of [(''other'', YMap [])] ''other'' = Some (YMap []) \<and>
   \<not> has_key ([] :: (string \<times> yaml) list) ''markers'' \<and>
   loadMarkers (Parsed (YMap [(''sets'', YMap [(''other'', YMap [])])])) ''markers.yml'' ''other'' ''world'' =
     Inl (Uncaught KeyError) \<and>
   loadMarkers (Read_raised IOError) ''markers.yml'' ''markers'' ''world'' =
     Inl (SysExit (Error (''cannot open markers file markers.yml'' @ [CHR 0x22] @ '' to read!'')) 1)"
proof -
  have a: "map_of [(''sets'', YMap [(''other'', YMap [])])] ''sets'' = Some (YMap [(''other'', YMap [])])"
    by simp
  have b: "\<not> has_key [(''other'', YMap [])] ''markers''" by (simp add: has_key_def)
  have c: "map_of [(''other'', YMap [])] ''other'' = Some (YMap [])" by simp
  have d: "\<not> has_key ([] :: (string \<times> yaml) list) ''markers''" by (simp add: has_key_def)
  have e: "loadMarkers (Read_raised IOError) ''markers.yml'' ''markers'' ''world'' =
     Inl (SysExit (Error (''cannot open markers file markers.yml'' @ [CHR 0x22] @ '' to read!'')) 1)"
    by (simp add: loadMarkers_def)
  from loadMarkers_uncaught_KeyError[of "[(''sets'', YMap [(''other'', YMap [])])]" "[(''other'', YMap [])]"
      "''markers''" "''markers.yml''" "''world''"] a b
  have 1: "loadMarkers (Parsed (YMap [(''sets'', YMap [(''other'', YMap [])])])) ''markers.yml'' ''markers'' ''world'' =
     Inl (Uncaught KeyError)" by blast
  from loadMarkers_uncaught_KeyError[of "[(''sets'', YMap [(''other'', YMap [])])]" "[(''other'', YMap [])]"
      "''other''" "''markers.yml''" "''world''" "[]"] a c d
  have 2: "loadMarkers (Parsed (YMap [(''sets'', YMap [(''other'', YMap [])])])) ''markers.yml'' ''other'' ''world'' =
     Inl (Uncaught KeyError)" by blast
  show ?thesis using a b c d e 1 2 by simp
qed

subsection \<open>The command line\<close>

lemma update_markers_out:
  "update_markers server world markerSet markers items out =
     (out @ fst (update_markers server world markerSet markers items []),
      snd (update_markers server world markerSet markers items []))"
proof (induction items arbitrary: out)
  case Nil
  then show ?case by simp
next
  case (Cons item items)
  show ?case
  proof (cases "update_marker server world markerSet markers item []")
    case (Inl e)
    then have "update_marker server world markerSet markers item out = Inl e"
      by (subst update_marker_out) simp
    then show ?thesis using Inl by simp
  next
    case (Inr cs)
    then have "update_marker server world markerSet markers item out = Inr (out @ cs)"
      by (subst update_marker_out) simp
    then show ?thesis using Inr Cons.IH[of "out @ cs"] Cons.IH[of cs] by simp
  qed
qed

lemma reconcile_from:
  "reconcile server world markerSet maps markers out =
     (out @ fst (reconcile server world markerSet maps markers []),
      snd (reconcile server world markerSet maps markers []))"
proof -
  let ?d = "map (\<lambda>k. Console server (Dmarker_delete k)) (filter (\<lambda>k. \<not> has_key maps k) (map fst markers))"
  have "reconcile server world markerSet maps markers out =
      update_markers server world markerSet markers maps (out @ ?d)"
    by (simp add: reconcile_def delete_unused_markers_out)
  also have "\<dots> = ((out @ ?d) @ fst (update_markers server world markerSet markers maps []),
      snd (update_markers server world markerSet markers maps []))"
    by (rule update_markers_out)
  finally have 1: "reconcile server world markerSet maps markers out =
      ((out @ ?d) @ fst (update_markers server world markerSet markers maps []),
      snd (update_markers server world markerSet markers maps []))" .
  have "reconcile server world markerSet maps markers [] =
      update_markers server world markerSet markers maps ?d"
    by (simp add: reconcile_def delete_unused_markers_out)
  also have "\<dots> = (?d @ fst (update_markers server world markerSet markers maps []),
      snd (update_markers server world markerSet markers maps []))"
    by (rule update_markers_out)
  finally show ?thesis using 1 by simp
qed

lemma reconcile_no_stderr:
  "Stderr m \<notin> set (fst (reconcile server world markerSet maps markers []))"
proof
  assume a: "Stderr m \<in> set (fst (reconcile server world markerSet maps markers []))"
  obtain out oc where r: "reconcile server world markerSet maps markers [] = (out, oc)"
    by (cases "reconcile server world markerSet maps markers []")
  from reconcile_targets[OF r, of "Stderr m"] a r show False by (simp add: target_def)
qed

lemma loadMarkers_SysExit_Error:
  assumes "loadMarkers file markersFileName markerSet world = Inl (SysExit msg status)"
  shows "\<exists>t. msg = Error t"
  using assms
  by (cases "file") (auto simp: loadMarkers_def split: sum.splits if_splits)

text \<open>
  C8. With \<^verbatim>\<open>sys.argv = [prog] + args\<close>: when \<open>args\<close> does not have exactly 5 elements, all
  the script does is print the usage text on standard error and exit with status 1; no
  command is sent and nothing is read. With exactly 5 arguments the usage text is never
  printed.
\<close>

theorem main_usage:
  "(length args \<noteq> 5 \<longrightarrow> main e prog args = ([Stderr (Usage prog)], Exit 1)) \<and>
   (length args = 5 \<longrightarrow> Stderr (Usage prog) \<notin> set (fst (main e prog args)))"
proof (intro conjI impI)
  assume "length args \<noteq> 5"
  then show "main e prog args = ([Stderr (Usage prog)], Exit 1)"
    by (simp add: main_def usage_def)
next
  assume "length args = 5"
  then obtain server world mapsDir markersFileName markerSet
    where args: "args = [server, world, mapsDir, markersFileName, markerSet]"
    by (auto simp: length_Suc_conv numeral_eq_Suc)
  show "Stderr (Usage prog) \<notin> set (fst (main e prog args))"
  proof (cases "isfile e markersFileName \<and> isdir e mapsDir")
    case False
    then show ?thesis by (auto simp: main_def args)
  next
    case True
    show ?thesis
    proof (cases "loadMaps mapsDir world (listdir e mapsDir)")
      case (Inl err)
      then show ?thesis using True by (simp add: main_def args serverCommand_def)
    next
      case (Inr maps)
      show ?thesis
      proof (cases "loadMarkers (read_yaml e markersFileName) markersFileName markerSet world")
        case (Inl f)
        show ?thesis
        proof (cases f)
          case (SysExit msg status)
          with Inl loadMarkers_SysExit_Error obtain t where "msg = Error t" by blast
          then show ?thesis using True Inr Inl SysExit by (simp add: main_def args serverCommand_def)
        next
          case (Uncaught err)
          then show ?thesis using True Inr Inl by (simp add: main_def args serverCommand_def)
        qed
      next
        case markers: (Inr markers)
        have "fst (main e prog args) =
            [Console server Save_all, Sleep 5] @ fst (reconcile server world markerSet maps markers [])"
          using True Inr markers
          by (simp add: main_def args serverCommand_def
              reconcile_from[of server world markerSet maps markers "[Console server Save_all, Sleep 5]"])
        then show ?thesis using reconcile_no_stderr by simp
      qed
    qed
  qed
qed

theorem main_usage_witness:
  "length [''pve'', ''world''] \<noteq> (5 :: nat) \<and>
   main \<lparr>isfile = (\<lambda>f. True), isdir = (\<lambda>d. True), read_yaml = (\<lambda>f. Parsed YNull), listdir = (\<lambda>d. [])\<rparr>
     ''mapmarkers.py'' [''pve'', ''world''] = ([Stderr (Usage ''mapmarkers.py'')], Exit 1) \<and>
   length [''pve'', ''world'', ''data'', ''markers.yml'', ''markers'', ''extra''] \<noteq> (5 :: nat) \<and>
   main \<lparr>isfile = (\<lambda>f. True), isdir = (\<lambda>d. True), read_yaml = (\<lambda>f. Parsed YNull), listdir = (\<lambda>d. [])\<rparr>
     ''mapmarkers.py'' [''pve'', ''world'', ''data'', ''markers.yml'', ''markers'', ''extra''] =
     ([Stderr (Usage ''mapmarkers.py'')], Exit 1) \<and>
   length [''pve'', ''world'', ''data'', ''markers.yml'', ''markers''] = (5 :: nat) \<and>
   Stderr (Usage ''mapmarkers.py'') \<notin> set (fst
     (main \<lparr>isfile = (\<lambda>f. True), isdir = (\<lambda>d. True), read_yaml = (\<lambda>f. Parsed YNull), listdir = (\<lambda>d. [])\<rparr>
        ''mapmarkers.py'' [''pve'', ''world'', ''data'', ''markers.yml'', ''markers'']))"
  using
    main_usage[of "[''pve'', ''world'']"
      "\<lparr>isfile = (\<lambda>f. True), isdir = (\<lambda>d. True), read_yaml = (\<lambda>f. Parsed YNull), listdir = (\<lambda>d. [])\<rparr>"
      "''mapmarkers.py''"]
    main_usage[of "[''pve'', ''world'', ''data'', ''markers.yml'', ''markers'', ''extra'']"
      "\<lparr>isfile = (\<lambda>f. True), isdir = (\<lambda>d. True), read_yaml = (\<lambda>f. Parsed YNull), listdir = (\<lambda>d. [])\<rparr>"
      "''mapmarkers.py''"]
    main_usage[of "[''pve'', ''world'', ''data'', ''markers.yml'', ''markers'']"
      "\<lparr>isfile = (\<lambda>f. True), isdir = (\<lambda>d. True), read_yaml = (\<lambda>f. Parsed YNull), listdir = (\<lambda>d. [])\<rparr>"
      "''mapmarkers.py''"]
  by simp

subsection \<open>Decimal numerals and the coordinate key\<close>

lemma digit_val_char: "d < 10 \<Longrightarrow> digit_val (digit_char d) = d"
  by (simp add: digit_val_def digit_char_def)

lemma is_digit_char: "d < 10 \<Longrightarrow> is_digit (digit_char d)"
  by (simp add: is_digit_def digit_char_def)

lemma nat_of_digits_snoc: "nat_of_digits (s @ [c]) = 10 * nat_of_digits s + digit_val c"
  by (simp add: nat_of_digits_def)

lemma nat_of_digits_str_nat: "nat_of_digits (str_nat n) = n"
proof (induction n rule: str_nat.induct)
  case (1 n)
  show ?case
  proof (cases "n < 10")
    case True
    then show ?thesis by (subst str_nat.simps) (simp add: nat_of_digits_def digit_val_char)
  next
    case False
    then have "nat_of_digits (str_nat (n div 10)) = n div 10" using 1 by simp
    then show ?thesis using False
      by (subst str_nat.simps) (simp add: nat_of_digits_snoc digit_val_char)
  qed
qed

lemma str_nat_inj: "str_nat m = str_nat n \<Longrightarrow> m = n"
  by (metis nat_of_digits_str_nat)

lemma str_nat_digits: "c \<in> set (str_nat n) \<Longrightarrow> is_digit c"
proof (induction n rule: str_nat.induct)
  case (1 n)
  show ?case
  proof (cases "n < 10")
    case True
    then show ?thesis using 1(2) by (subst (asm) str_nat.simps) (simp add: is_digit_char)
  next
    case False
    then show ?thesis using 1
      by (subst (asm) (2) str_nat.simps) (auto simp: is_digit_char)
  qed
qed

lemma str_nat_nonempty: "str_nat n \<noteq> []"
  by (subst str_nat.simps) simp

lemma str_int_chars: "c \<in> set (str_int i) \<Longrightarrow> c \<noteq> CHR '':''"
  by (auto simp: str_int_def is_digit_def dest!: str_nat_digits split: if_splits)

lemma str_int_inj: "str_int i = str_int j \<Longrightarrow> i = j"
proof -
  have nd: "\<not> is_digit (CHR ''-'')" by (simp add: is_digit_def)
  have hd_digit: "is_digit (hd (str_nat n))" for n
    using str_nat_digits[of "hd (str_nat n)" n] str_nat_nonempty[of n] by simp
  assume a: "str_int i = str_int j"
  show ?thesis
  proof (cases "i < 0"; cases "j < 0")
    assume "i < 0" "j < 0"
    then have "nat (- i) = nat (- j)" using a str_nat_inj by (simp add: str_int_def)
    then show ?thesis using \<open>i < 0\<close> \<open>j < 0\<close> by simp
  next
    assume "i < 0" "\<not> j < 0"
    then have "CHR ''-'' # str_nat (nat (- i)) = str_nat (nat j)" using a by (simp add: str_int_def)
    then have "hd (str_nat (nat j)) = CHR ''-''" by (metis list.sel(1))
    then show ?thesis using hd_digit[of "nat j"] nd by simp
  next
    assume "\<not> i < 0" "j < 0"
    then have "CHR ''-'' # str_nat (nat (- j)) = str_nat (nat i)" using a by (simp add: str_int_def)
    then have "hd (str_nat (nat i)) = CHR ''-''" by (metis list.sel(1))
    then show ?thesis using hd_digit[of "nat i"] nd by simp
  next
    assume "\<not> i < 0" "\<not> j < 0"
    then have "nat i = nat j" using a str_nat_inj by (simp add: str_int_def)
    then show ?thesis using \<open>\<not> i < 0\<close> \<open>\<not> j < 0\<close> by simp
  qed
qed

lemma split_at_char:
  assumes "xs @ c # ys = xs' @ c # ys'" and "c \<notin> set xs" and "c \<notin> set xs'"
  shows "xs = xs' \<and> ys = ys'"
proof -
  have "takeWhile (\<lambda>a. a \<noteq> c) (xs @ c # ys) = xs"
    using assms(2) by (induction xs) auto
  moreover have "takeWhile (\<lambda>a. a \<noteq> c) (xs' @ c # ys') = xs'"
    using assms(3) by (induction xs') auto
  ultimately have "xs = xs'" using assms(1) by simp
  then show ?thesis using assms(1) by simp
qed

lemma coords_key_inj: "coords_key x z = coords_key x' z' \<Longrightarrow> x = x' \<and> z = z'"
proof -
  assume "coords_key x z = coords_key x' z'"
  then have "str_int x @ CHR '':'' # str_int z = str_int x' @ CHR '':'' # str_int z'"
    by (simp add: coords_key_def)
  then have "str_int x = str_int x' \<and> str_int z = str_int z'"
    using str_int_chars by (intro split_at_char) auto
  then show ?thesis using str_int_inj by blast
qed

subsection \<open>The loop over the map files\<close>

lemma keys_dict_set:
  "map fst (dict_set d k v) = (if k \<in> set (map fst d) then map fst d else map fst d @ [k])"
  by (induction d k v rule: dict_set.induct) auto

lemma distinct_dict_set: "distinct (map fst d) \<Longrightarrow> distinct (map fst (dict_set d k v))"
  by (simp add: keys_dict_set)

lemma loadMaps_file_track:
  "loadMaps_file world f state =
     (if dimension (snd f) = ''minecraft:'' @ world \<and> re_match_group1 (fst f) = None
      then Inl AttributeError
      else Inr (case map_record world f of None \<Rightarrow> state | Some r \<Rightarrow> track state r))"
proof -
  obtain path nbt where f: "f = (path, nbt)" by (cases f)
  obtain h a where st: "state = (h, a)" by (cases state)
  show ?thesis
    by (auto simp: f st map_record_def track_def Let_def split: option.splits)
qed

lemma loadMaps_files_track:
  "names_match world files \<Longrightarrow>
   loadMaps_files world files state = Inr (foldl track state (map_records world files))"
proof (induction files arbitrary: state)
  case Nil
  then show ?case by (simp add: map_records_def map_filter_simps)
next
  case (Cons f files)
  then have nm: "names_match world files"
    and ok: "dimension (snd f) = ''minecraft:'' @ world \<longrightarrow> re_match_group1 (fst f) \<noteq> None"
    by (simp_all add: names_match_def)
  show ?case
  proof (cases "map_record world f")
    case None
    then show ?thesis using Cons.IH[OF nm] ok
      by (simp add: loadMaps_file_track map_records_def map_filter_simps)
  next
    case (Some r)
    then show ?thesis using Cons.IH[OF nm] ok
      by (simp add: loadMaps_file_track map_records_def map_filter_simps)
  qed
qed

lemma loadMaps_files_error:
  "\<not> names_match world files \<Longrightarrow> loadMaps_files world files state = Inl AttributeError"
proof (induction files arbitrary: state)
  case Nil
  then show ?case by (simp add: names_match_def)
next
  case (Cons f files)
  show ?case
  proof (cases "dimension (snd f) = ''minecraft:'' @ world \<and> re_match_group1 (fst f) = None")
    case True
    then show ?thesis by (simp add: loadMaps_file_track)
  next
    case False
    then have "\<not> names_match world files" using Cons.prems by (auto simp: names_match_def)
    then show ?thesis using Cons.IH False by (simp add: loadMaps_file_track)
  qed
qed

lemma ids_at_insert:
  "ids_at (insert (i, x, z) R) x' z' =
     (if x' = x \<and> z' = z then insert i (ids_at R x z) else ids_at R x' z')"
  by (auto simp: ids_at_def)

lemma finite_ids_at: "finite R \<Longrightarrow> finite (ids_at R x z)"
proof -
  assume "finite R"
  moreover have "ids_at R x z \<subseteq> fst ` R" by (force simp: ids_at_def)
  ultimately show ?thesis by (meson finite_imageI finite_subset)
qed

lemma maps_inv_empty: "maps_inv {} ([], [])"
  by (simp add: maps_inv_def ids_at_def)

lemma maps_inv_track:
  assumes inv: "maps_inv R state" and fin: "finite R" and fresh: "i \<notin> fst ` R"
  shows "maps_inv (insert (i, x, z) R) (track state (i, x, z))"
proof -
  obtain h a where st: "state = (h, a)" by (cases state)
  let ?key = "coords_key x z"
  let ?R = "insert (i, x, z) R"
  let ?h = "if \<not> has_key h ?key \<or> (case map_of h ?key of Some highest \<Rightarrow> highest < i | None \<Rightarrow> False)
            then dict_set h ?key i else h"
  have tr: "track state (i, x, z) = (?h, dict_set a i (x, z))"
    by (simp add: track_def st)
  have dh: "distinct (map fst h)" and da: "distinct (map fst a)"
    and A: "\<And>i x z. (map_of a i = Some (x, z)) = ((i, x, z) \<in> R)"
    and H: "\<And>k m. (map_of h k = Some m) =
         (\<exists>x z. k = coords_key x z \<and> ids_at R x z \<noteq> {} \<and> m = Max (ids_at R x z))"
    using inv by (auto simp: maps_inv_def st)
  have fr: "(i, x', z') \<notin> R" for x' z' using fresh by force
  have finS: "finite (ids_at R x z)" by (rule finite_ids_at[OF fin])
  have d1: "distinct (map fst ?h)" using dh by (simp add: distinct_dict_set)
  have d2: "distinct (map fst (dict_set a i (x, z)))" using da by (simp add: distinct_dict_set)
  have A': "(map_of (dict_set a i (x, z)) i' = Some (x', z')) = ((i', x', z') \<in> ?R)" for i' x' z'
    using A fr by (auto simp: map_of_dict_set)
  have hkey: "map_of ?h ?key = Some (Max (insert i (ids_at R x z)))"
  proof (cases "map_of h ?key")
    case None
    then have "ids_at R x z = {}" using H[of ?key] by (metis option.distinct(1))
    then show ?thesis using None by (simp add: has_key_map_of map_of_dict_set)
  next
    case (Some m0)
    then obtain x0 z0 where "?key = coords_key x0 z0" "ids_at R x0 z0 \<noteq> {}" "m0 = Max (ids_at R x0 z0)"
      using H[of ?key m0] by auto
    then have ne: "ids_at R x z \<noteq> {}" and m0: "m0 = Max (ids_at R x z)"
      using coords_key_inj[of x z x0 z0] by auto
    have mx: "Max (insert i (ids_at R x z)) = max i m0"
      using finS ne m0 by simp
    show ?thesis
    proof (cases "m0 < i")
      case True
      then show ?thesis using Some mx by (simp add: map_of_dict_set max_def)
    next
      case False
      then show ?thesis using Some mx by (simp add: has_key_map_of max_def)
    qed
  qed
  have hother: "map_of ?h k = map_of h k" if "k \<noteq> ?key" for k
    using that by (simp add: map_of_dict_set)
  have H': "(map_of ?h k = Some m) =
         (\<exists>x' z'. k = coords_key x' z' \<and> ids_at ?R x' z' \<noteq> {} \<and> m = Max (ids_at ?R x' z'))" for k m
  proof (cases "k = ?key")
    case True
    have "(\<exists>x' z'. ?key = coords_key x' z' \<and> ids_at ?R x' z' \<noteq> {} \<and> m = Max (ids_at ?R x' z')) =
        (m = Max (insert i (ids_at R x z)))"
    proof
      assume "\<exists>x' z'. ?key = coords_key x' z' \<and> ids_at ?R x' z' \<noteq> {} \<and> m = Max (ids_at ?R x' z')"
      then obtain x' z' where k: "?key = coords_key x' z'" and m: "m = Max (ids_at ?R x' z')" by blast
      from coords_key_inj[OF k] have "x' = x" "z' = z" by simp_all
      then show "m = Max (insert i (ids_at R x z))" using m by (simp add: ids_at_insert)
    next
      assume "m = Max (insert i (ids_at R x z))"
      then have "?key = coords_key x z \<and> ids_at ?R x z \<noteq> {} \<and> m = Max (ids_at ?R x z)"
        by (simp add: ids_at_insert)
      then show "\<exists>x' z'. ?key = coords_key x' z' \<and> ids_at ?R x' z' \<noteq> {} \<and> m = Max (ids_at ?R x' z')"
        by blast
    qed
    then show ?thesis using hkey True by auto
  next
    case False
    have "(\<exists>x' z'. k = coords_key x' z' \<and> ids_at ?R x' z' \<noteq> {} \<and> m = Max (ids_at ?R x' z')) =
        (\<exists>x' z'. k = coords_key x' z' \<and> ids_at R x' z' \<noteq> {} \<and> m = Max (ids_at R x' z'))"
    proof -
      have "ids_at ?R x' z' = ids_at R x' z'" if "k = coords_key x' z'" for x' z'
        using that False by (auto simp: ids_at_insert)
      then show ?thesis by metis
    qed
    then show ?thesis using hother[OF False] H[of k m] by simp
  qed
  show ?thesis
    unfolding maps_inv_def tr fst_conv snd_conv
    using d1 d2 A' H' by blast
qed

lemma maps_inv_foldl:
  "distinct (map fst rs) \<Longrightarrow> maps_inv (set rs) (foldl track ([], []) rs)"
proof (induction rs rule: rev_induct)
  case Nil
  then show ?case by (simp add: maps_inv_empty)
next
  case (snoc r rs)
  obtain i x z where r: "r = (i, x, z)" by (cases r) auto
  from snoc.prems have d: "distinct (map fst rs)" and fresh: "i \<notin> fst ` set rs"
    by (simp_all add: r)
  have "maps_inv (insert (i, x, z) (set rs)) (track (foldl track ([], []) rs) (i, x, z))"
    by (rule maps_inv_track[OF snoc.IH[OF d] _ fresh]) simp
  then show ?case by (simp add: r)
qed

lemma loadMaps_result_map:
  assumes "\<And>e. e \<in> set h \<Longrightarrow> map_of a (snd e) \<noteq> None"
    and "distinct (map (\<lambda>e. str_nat (snd e)) h)"
    and "set (map (\<lambda>e. str_nat (snd e)) h) \<inter> set (map fst res) = {}"
  shows "loadMaps_result h a res = Inr (res @ map (\<lambda>e. (str_nat (snd e), the (map_of a (snd e)))) h)"
  using assms
proof (induction h arbitrary: res)
  case Nil
  then show ?case by simp
next
  case (Cons e h)
  obtain k m where e: "e = (k, m)" by (cases e)
  from Cons.prems(1)[of e] obtain d where d: "map_of a m = Some d" by (auto simp: e)
  have fresh: "str_nat m \<notin> set (map fst res)" using Cons.prems(3) by (auto simp: e)
  have step: "dict_set res (str_nat m) d = res @ [(str_nat m, d)]"
    by (rule dict_set_fresh[OF fresh])
  have "loadMaps_result h a (res @ [(str_nat m, d)]) =
      Inr ((res @ [(str_nat m, d)]) @ map (\<lambda>e. (str_nat (snd e), the (map_of a (snd e)))) h)"
  proof (rule Cons.IH)
    show "\<And>e. e \<in> set h \<Longrightarrow> map_of a (snd e) \<noteq> None" using Cons.prems(1) by simp
    show "distinct (map (\<lambda>e. str_nat (snd e)) h)" using Cons.prems(2) by simp
    show "set (map (\<lambda>e. str_nat (snd e)) h) \<inter> set (map fst (res @ [(str_nat m, d)])) = {}"
      using Cons.prems(2,3) by (auto simp: e)
  qed
  then show ?case by (simp add: e d step)
qed

lemma loadMaps_result_total:
  assumes "\<And>e. e \<in> set h \<Longrightarrow> map_of a (snd e) \<noteq> None"
  shows "\<exists>t. loadMaps_result h a res = Inr t"
  using assms
proof (induction h arbitrary: res)
  case Nil
  then show ?case by simp
next
  case (Cons e h)
  obtain k m where e: "e = (k, m)" by (cases e)
  from Cons.prems[of e] obtain d where d: "map_of a m = Some d" by (auto simp: e)
  have "\<exists>t. loadMaps_result h a (dict_set res (str_nat m) d) = Inr t"
    by (rule Cons.IH) (use Cons.prems in simp)
  then show ?case by (simp add: e d)
qed

lemma set_dict_set: "set (dict_set d k v) \<subseteq> insert (k, v) (set d)"
  by (induction d k v rule: dict_set.induct) auto

lemma track_values:
  assumes "\<And>e. e \<in> set (fst state) \<Longrightarrow> map_of (snd state) (snd e) \<noteq> None"
    and "e \<in> set (fst (track state r))"
  shows "map_of (snd (track state r)) (snd e) \<noteq> None"
proof -
  have a: "map_of (snd (track state r)) = (map_of (snd state))(fst r \<mapsto> snd r)"
    by (simp add: track_def Let_def map_of_dict_set)
  have "set (fst (track state r)) \<subseteq> insert (coords_key (fst (snd r)) (snd (snd r)), fst r) (set (fst state))"
    using set_dict_set[of "fst state" "coords_key (fst (snd r)) (snd (snd r))" "fst r"]
    by (auto simp: track_def Let_def)
  then have "e = (coords_key (fst (snd r)) (snd (snd r)), fst r) \<or> e \<in> set (fst state)"
    using assms(2) by auto
  then have "snd e = fst r \<or> map_of (snd state) (snd e) \<noteq> None"
    using assms(1)[of e] by auto
  then show ?thesis unfolding a by (cases "snd e = fst r") simp_all
qed

lemma foldl_track_values:
  assumes "\<And>e. e \<in> set (fst state) \<Longrightarrow> map_of (snd state) (snd e) \<noteq> None"
    and "e \<in> set (fst (foldl track state rs))"
  shows "map_of (snd (foldl track state rs)) (snd e) \<noteq> None"
  using assms
proof (induction rs arbitrary: state e)
  case Nil
  then show ?case by simp
next
  case (Cons r rs)
  have "map_of (snd (foldl track (track state r) rs)) (snd e) \<noteq> None"
  proof (rule Cons.IH[of "track state r" e])
    show "\<And>e. e \<in> set (fst (track state r)) \<Longrightarrow> map_of (snd (track state r)) (snd e) \<noteq> None"
      using track_values[of state _ r] Cons.prems(1) by blast
    show "e \<in> set (fst (foldl track (track state r) rs))" using Cons.prems(2) by simp
  qed
  then show ?case by simp
qed

lemma reduce_maps_total:
  assumes "names_match world files"
  shows "\<exists>t. reduce_maps world files = Inr t"
proof -
  obtain h a where st: "foldl track ([], []) (map_records world files) = (h, a)"
    by (cases "foldl track ([], []) (map_records world files)")
  have "map_of a (snd e) \<noteq> None" if "e \<in> set h" for e
    using foldl_track_values[of "([], [])" e "map_records world files"] that st by simp
  then obtain t where "loadMaps_result h a [] = Inr t" using loadMaps_result_total by blast
  then show ?thesis
    by (simp add: reduce_maps_def loadMaps_files_track[OF assms] st)
qed

lemma reduce_maps_error:
  "\<not> names_match world files \<Longrightarrow> reduce_maps world files = Inl AttributeError"
  by (simp add: reduce_maps_def loadMaps_files_error)

lemma reduce_maps_winners:
  assumes nm: "names_match world files" and di: "distinct (map fst (map_records world files))"
  shows "\<exists>t. reduce_maps world files = Inr t \<and> distinct (map fst t) \<and> distinct (map snd t) \<and>
     set t = winners (set (map_records world files))"
proof -
  let ?rs = "map_records world files"
  let ?R = "set ?rs"
  obtain h a where st: "foldl track ([], []) ?rs = (h, a)"
    by (cases "foldl track ([], []) ?rs")
  have inv: "maps_inv ?R (h, a)" using maps_inv_foldl[OF di] st by simp
  have dh: "distinct (map fst h)"
    and A: "\<And>i x z. (map_of a i = Some (x, z)) = ((i, x, z) \<in> ?R)"
    and H: "\<And>k m. (map_of h k = Some m) =
         (\<exists>x z. k = coords_key x z \<and> ids_at ?R x z \<noteq> {} \<and> m = Max (ids_at ?R x z))"
    using inv by (auto simp: maps_inv_def)
  have uniq: "x = x' \<and> z = z'" if "(i, x, z) \<in> ?R" "(i, x', z') \<in> ?R" for i x z x' z'
    using that di by (metis Pair_inject eq_key_imp_eq_value)
  have maxin: "(Max (ids_at ?R x z), x, z) \<in> ?R" if "ids_at ?R x z \<noteq> {}" for x z
  proof -
    have "Max (ids_at ?R x z) \<in> ids_at ?R x z"
      using that finite_ids_at[of ?R x z] by (simp add: Max_in)
    then show ?thesis by (simp add: ids_at_def)
  qed
  have entry: "\<exists>x z. fst e = coords_key x z \<and> ids_at ?R x z \<noteq> {} \<and> snd e = Max (ids_at ?R x z) \<and>
      map_of a (snd e) = Some (x, z)" if "e \<in> set h" for e
  proof -
    have "map_of h (fst e) = Some (snd e)" using that dh by simp
    then obtain x z where xz: "fst e = coords_key x z" "ids_at ?R x z \<noteq> {}" "snd e = Max (ids_at ?R x z)"
      using H by blast
    then have "map_of a (snd e) = Some (x, z)" using maxin[of x z] A by simp
    then show ?thesis using xz by blast
  qed
  let ?f = "\<lambda>e. (str_nat (snd e), the (map_of a (snd e)))"
  let ?t = "map ?f h"
  have inj_val: "inj_on snd (set h)"
  proof (rule inj_onI)
    fix e e' assume e: "e \<in> set h" "e' \<in> set h" "snd e = snd e'"
    from entry[OF e(1)] obtain x z where 1: "fst e = coords_key x z" "map_of a (snd e) = Some (x, z)" by blast
    from entry[OF e(2)] obtain x' z' where 2: "fst e' = coords_key x' z'" "map_of a (snd e') = Some (x', z')" by blast
    from 1 2 e(3) have "fst e = fst e'" by simp
    then show "e = e'" using e(3) by (simp add: prod_eq_iff)
  qed
  have dist_h: "distinct h" using dh distinct_map by blast
  have dv: "distinct (map (\<lambda>e. str_nat (snd e)) h)"
  proof -
    have "inj_on (\<lambda>e. str_nat (snd e)) (set h)"
      by (rule inj_onI) (metis inj_val inj_onD str_nat_inj)
    then show ?thesis using dist_h by (simp add: distinct_map)
  qed
  have res: "loadMaps_result h a [] = Inr ?t"
    using loadMaps_result_map[of h a "[]"] entry dv by force
  have r: "reduce_maps world files = Inr ?t"
    by (simp add: reduce_maps_def loadMaps_files_track[OF nm] st res)
  have d1: "distinct (map fst ?t)" using dv by (simp add: comp_def)
  have d2: "distinct (map snd ?t)"
  proof -
    have "inj_on (\<lambda>e. the (map_of a (snd e))) (set h)"
    proof (rule inj_onI)
      fix e e' assume e: "e \<in> set h" "e' \<in> set h" "the (map_of a (snd e)) = the (map_of a (snd e'))"
      from entry[OF e(1)] obtain x z where 1: "fst e = coords_key x z" "map_of a (snd e) = Some (x, z)" by blast
      from entry[OF e(2)] obtain x' z' where 2: "fst e' = coords_key x' z'" "map_of a (snd e') = Some (x', z')" by blast
      from 1 2 e(3) have "fst e = fst e'" by simp
      then show "e = e'" using e(1,2) dh by (metis eq_key_imp_eq_value prod.collapse)
    qed
    then show ?thesis using dist_h by (simp add: distinct_map comp_def)
  qed
  have s: "set ?t = winners ?R"
  proof (rule set_eqI)
    fix p
    show "p \<in> set ?t \<longleftrightarrow> p \<in> winners ?R"
    proof
      assume "p \<in> set ?t"
      then obtain e where e: "e \<in> set h" "p = ?f e" by auto
      from entry[OF e(1)] obtain x z where xz: "ids_at ?R x z \<noteq> {}" "snd e = Max (ids_at ?R x z)"
        "map_of a (snd e) = Some (x, z)" by blast
      have "(snd e, x, z) \<in> ?R" using xz A by simp
      moreover have "p = (str_nat (Max (ids_at ?R x z)), (x, z))" using e(2) xz by simp
      ultimately show "p \<in> winners ?R" unfolding winners_def by force
    next
      assume "p \<in> winners ?R"
      then obtain i x z where r: "(i, x, z) \<in> ?R" "p = (str_nat (Max (ids_at ?R x z)), (x, z))"
        unfolding winners_def by force
      then have ne: "ids_at ?R x z \<noteq> {}" by (auto simp: ids_at_def)
      then have "map_of h (coords_key x z) = Some (Max (ids_at ?R x z))" using H by blast
      then have "(coords_key x z, Max (ids_at ?R x z)) \<in> set h" by (rule map_of_SomeD)
      moreover have "map_of a (Max (ids_at ?R x z)) = Some (x, z)" using maxin[OF ne] A by simp
      ultimately show "p \<in> set ?t" using r(2) by force
    qed
  qed
  show ?thesis using r d1 d2 s by blast
qed

subsection \<open>The file name pattern\<close>

lemma match_star_hit: "match_at path n = Some g \<Longrightarrow> match_star path n = Some g"
  by (cases n) simp_all

lemma match_star_skip:
  "n \<le> K \<Longrightarrow> (\<And>k. n < k \<Longrightarrow> k \<le> K \<Longrightarrow> match_at path k = None) \<Longrightarrow>
   match_star path K = match_star path n"
proof (induction K)
  case 0
  then show ?case by simp
next
  case (Suc K)
  show ?case
  proof (cases "n = Suc K")
    case True
    then show ?thesis by simp
  next
    case False
    then have "n \<le> K" using Suc.prems(1) by simp
    moreover have "match_at path (Suc K) = None" using Suc.prems(2)[of "Suc K"] False \<open>n \<le> K\<close> by simp
    ultimately show ?thesis using Suc.IH Suc.prems(2) by simp
  qed
qed

lemma not_newline_digit: "is_digit c \<Longrightarrow> c \<noteq> CHR 0x0A"
  by (auto simp: is_digit_def)

lemma not_slash_digit: "is_digit c \<Longrightarrow> c \<noteq> CHR ''/''"
  by (auto simp: is_digit_def)

lemma takeWhile_all: "(\<And>c. c \<in> set xs \<Longrightarrow> P c) \<Longrightarrow> takeWhile P xs = xs"
  by (induction xs) auto

lemma takeWhile_digits: "(\<And>c. c \<in> set ds \<Longrightarrow> is_digit c) \<Longrightarrow> takeWhile is_digit (ds @ ''.dat'') = ds"
proof (induction ds)
  case Nil
  then show ?case by (simp add: is_digit_def)
next
  case (Cons a ds)
  then show ?case by simp
qed

lemma match_digits_exact:
  assumes "ds \<noteq> []"
  shows "match_digits (ds @ ''.dat'') (length ds) = Some ds"
proof -
  obtain m where m: "length ds = Suc m" using assms by (cases ds) auto
  have "drop (Suc m) (ds @ ''.dat'') = ''.dat''" and tk: "take (Suc m) (ds @ ''.dat'') = ds"
    using m by simp_all
  then have "match_tail (drop (Suc m) (ds @ ''.dat''))" by (simp add: match_tail_def)
  then have "match_digits (ds @ ''.dat'') (Suc m) = Some ds" using tk by simp
  then show ?thesis unfolding m .
qed

lemma re_match_exact:
  assumes nl: "CHR 0x0A \<notin> set mapsDir" and ne: "ds \<noteq> []" and dg: "\<And>c. c \<in> set ds \<Longrightarrow> is_digit c"
  shows "re_match_group1 (mapsDir @ ''/map_'' @ ds @ ''.dat'') = Some ds"
proof -
  let ?rest = "''map_'' @ ds @ ''.dat''"
  let ?path = "mapsDir @ ''/map_'' @ ds @ ''.dat''"
  have p: "?path = mapsDir @ CHR ''/'' # ?rest" by simp
  have "\<And>c. c \<in> set ?path \<Longrightarrow> c \<noteq> CHR 0x0A"
    using nl not_newline_digit[OF dg] by auto
  then have tw: "takeWhile (\<lambda>c. c \<noteq> CHR 0x0A) ?path = ?path" by (rule takeWhile_all)
  have at: "match_at ?path (length mapsDir) = Some ds"
    using match_digits_exact[OF ne] takeWhile_digits[OF dg]
    by (simp add: match_at_def)
  have none: "match_at ?path k = None" if "length mapsDir < k" for k
  proof -
    define j where "j = k - Suc (length mapsDir)"
    have k: "k = length mapsDir + Suc j" using that by (simp add: j_def)
    have d: "drop k ?path = drop j ?rest" unfolding p k by simp
    have "\<not> prefix ''/map_'' (drop j ?rest)"
    proof
      assume "prefix ''/map_'' (drop j ?rest)"
      then obtain t where t: "drop j ?rest = CHR ''/'' # t" by (auto simp: prefix_def)
      then have "CHR ''/'' \<in> set (drop j ?rest)" by simp
      then have "CHR ''/'' \<in> set ?rest" by (meson in_set_dropD)
      then show False using not_slash_digit[OF dg] by auto
    qed
    then show ?thesis unfolding match_at_def d by simp
  qed
  have "match_star ?path (length ?path) = match_star ?path (length mapsDir)"
    by (rule match_star_skip) (use none in auto)
  then show ?thesis
    unfolding re_match_group1_def tw using match_star_hit[OF at] by simp
qed

subsection \<open>Properties of the map reducer\<close>

lemma mset_map_records:
  assumes "mset files' = mset files"
  shows "mset (map_records world files') = mset (map_records world files)"
proof -
  have "mset (map_records world fs) =
      image_mset (the \<circ> map_record world) (filter_mset (\<lambda>f. map_record world f \<noteq> None) (mset fs))" for fs
    by (simp add: map_records_def List.map_filter_def)
  then show ?thesis using assms by simp
qed

lemma reduce_maps_cases:
  "(\<not> names_match world files \<and> reduce_maps world files = Inl AttributeError) \<or>
   (names_match world files \<and> (\<exists>t. reduce_maps world files = Inr t))"
  using reduce_maps_error reduce_maps_total by blast

lemma names_match_set:
  assumes "set files' = set files"
  shows "names_match world files' = names_match world files"
  unfolding names_match_def list_all_iff assms ..

lemma winners_iff:
  "((k, x, z) \<in> winners R) = ((\<exists>i. (i, x, z) \<in> R) \<and> k = str_nat (Max {i. (i, x, z) \<in> R}))"
proof
  assume "(k, x, z) \<in> winners R"
  then obtain r where r: "r \<in> R" "(k, x, z) = (str_nat (Max (ids_at R (fst (snd r)) (snd (snd r)))), snd r)"
    unfolding winners_def by (rule imageE)
  obtain i x' z' where ri: "r = (i, x', z')" by (cases r) auto
  from r(2) have "x' = x" "z' = z" "k = str_nat (Max (ids_at R x' z'))" unfolding ri by simp_all
  then show "(\<exists>i. (i, x, z) \<in> R) \<and> k = str_nat (Max {i. (i, x, z) \<in> R})"
    using r(1) unfolding ri ids_at_def by blast
next
  assume a: "(\<exists>i. (i, x, z) \<in> R) \<and> k = str_nat (Max {i. (i, x, z) \<in> R})"
  then obtain i where i: "(i, x, z) \<in> R" by blast
  have "(k, x, z) = (\<lambda>r. (str_nat (Max (ids_at R (fst (snd r)) (snd (snd r)))), snd r)) (i, x, z)"
    using a by (simp add: ids_at_def)
  then show "(k, x, z) \<in> winners R" unfolding winners_def using i by (rule image_eqI)
qed

lemma glob_maps_paths:
  assumes "f \<in> set (glob_maps mapsDir listing)"
  shows "\<exists>entry \<in> set listing. fnmatch_map (fst entry) \<and> f = (mapsDir @ ''/'' @ fst entry, snd entry)"
  using assms by (auto simp: glob_maps_def)

lemma loadMaps_winners:
  assumes "loadMaps mapsDir world listing = Inr table"
    and "distinct (map fst (map_records world (glob_maps mapsDir listing)))"
  shows "distinct (map fst table) \<and> distinct (map snd table) \<and>
     (\<forall>k x z. ((k, x, z) \<in> set table) =
        ((\<exists>i. (i, x, z) \<in> set (map_records world (glob_maps mapsDir listing))) \<and>
         k = str_nat (Max {i. (i, x, z) \<in> set (map_records world (glob_maps mapsDir listing))})))"
proof -
  let ?fs = "sort_key fst (glob_maps mapsDir listing)"
  have r: "reduce_maps world ?fs = Inr table" using assms(1) by (simp add: loadMaps_def)
  then have nm: "names_match world ?fs" using reduce_maps_cases[of world ?fs] by auto
  have ms: "mset (map_records world ?fs) = mset (map_records world (glob_maps mapsDir listing))"
    by (rule mset_map_records) simp
  then have "mset (map fst (map_records world ?fs)) = mset (map fst (map_records world (glob_maps mapsDir listing)))"
    by (metis mset_map)
  then have di: "distinct (map fst (map_records world ?fs))"
    using assms(2) by (metis mset_eq_imp_distinct_iff)
  have se: "set (map_records world ?fs) = set (map_records world (glob_maps mapsDir listing))"
    using ms by (rule mset_eq_setD)
  from reduce_maps_winners[OF nm di] r
  have "distinct (map fst table)" "distinct (map snd table)"
    "set table = winners (set (map_records world ?fs))" by auto
  then show ?thesis unfolding se by (simp add: winners_iff)
qed


text \<open>
  C2. Map ids are unique: no two records of the target world at scale 0 have the same id
  (an id belongs to one file). Then \<^verbatim>\<open>loadMaps\<close> returns a table whenever the pattern
  matches the path of every file of the target world, and a table it returns is a dict
  with one entry for each centre \<open>(x, z)\<close> that occurs among the records of the target
  world at scale 0, no two entries with the same centre: the key is \<^verbatim>\<open>str\<close> of the highest
  id among the records with that centre, the value is the centre. \<open>map_records\<close> leaves
  out the files of another dimension and those of a scale other than 0, so they add no
  entry.
\<close>

theorem loadMaps_table:
  assumes "distinct (map fst (map_records world (glob_maps mapsDir listing)))"
  shows "(names_match world (glob_maps mapsDir listing) \<longrightarrow>
       (\<exists>table. loadMaps mapsDir world listing = Inr table)) \<and>
     (\<forall>table. loadMaps mapsDir world listing = Inr table \<longrightarrow>
        distinct (map fst table) \<and> distinct (map snd table) \<and>
        (\<forall>k x z. ((k, x, z) \<in> set table) =
           ((\<exists>i. (i, x, z) \<in> set (map_records world (glob_maps mapsDir listing))) \<and>
            k = str_nat (Max {i. (i, x, z) \<in> set (map_records world (glob_maps mapsDir listing))}))))"
proof (intro conjI impI allI)
  assume "names_match world (glob_maps mapsDir listing)"
  then have "names_match world (sort_key fst (glob_maps mapsDir listing))"
    using names_match_set[of "sort_key fst (glob_maps mapsDir listing)" "glob_maps mapsDir listing" world]
    by simp
  then show "\<exists>table. loadMaps mapsDir world listing = Inr table"
    unfolding loadMaps_def by (rule reduce_maps_total)
next
  fix table assume l: "loadMaps mapsDir world listing = Inr table"
  from loadMaps_winners[OF l assms] show "distinct (map fst table)" by simp
next
  fix table assume l: "loadMaps mapsDir world listing = Inr table"
  from loadMaps_winners[OF l assms] show "distinct (map snd table)" by simp
next
  fix table k x z assume l: "loadMaps mapsDir world listing = Inr table"
  from loadMaps_winners[OF l assms]
  show "((k, x, z) \<in> set table) =
     ((\<exists>i. (i, x, z) \<in> set (map_records world (glob_maps mapsDir listing))) \<and>
      k = str_nat (Max {i. (i, x, z) \<in> set (map_records world (glob_maps mapsDir listing))}))"
    by simp
qed

theorem loadMaps_table_witness:
  "loadMaps ''data'' ''world''
     [(''map_7.dat'', \<lparr>dimension = ''minecraft:world'', scale = 0, xCenter = 0, zCenter = 0\<rparr>),
      (''map_12.dat'', \<lparr>dimension = ''minecraft:world'', scale = 0, xCenter = 0, zCenter = 0\<rparr>),
      (''map_3.dat'', \<lparr>dimension = ''minecraft:world'', scale = 1, xCenter = 5, zCenter = 5\<rparr>),
      (''map_4.dat'', \<lparr>dimension = ''minecraft:the_nether'', scale = 0, xCenter = 9, zCenter = 9\<rparr>)] =
     Inr [(''12'', (0, 0))] \<and>
   map_records ''world'' (glob_maps ''data''
     [(''map_7.dat'', \<lparr>dimension = ''minecraft:world'', scale = 0, xCenter = 0, zCenter = 0\<rparr>),
      (''map_12.dat'', \<lparr>dimension = ''minecraft:world'', scale = 0, xCenter = 0, zCenter = 0\<rparr>),
      (''map_3.dat'', \<lparr>dimension = ''minecraft:world'', scale = 1, xCenter = 5, zCenter = 5\<rparr>),
      (''map_4.dat'', \<lparr>dimension = ''minecraft:the_nether'', scale = 0, xCenter = 9, zCenter = 9\<rparr>)]) =
     [(7, 0, 0), (12, 0, 0)] \<and>
   distinct (map fst [(7 :: nat, 0 :: int, 0 :: int), (12, 0, 0)]) \<and>
   distinct (map fst [(''12'', (0 :: int, 0 :: int))]) \<and>
   distinct (map snd [(''12'', (0 :: int, 0 :: int))]) \<and>
   ''12'' = str_nat (Max {i. (i, 0, 0) \<in> set [(7 :: nat, 0 :: int, 0 :: int), (12, 0, 0)]})"
proof -
  have l: "loadMaps ''data'' ''world''
     [(''map_7.dat'', \<lparr>dimension = ''minecraft:world'', scale = 0, xCenter = 0, zCenter = 0\<rparr>),
      (''map_12.dat'', \<lparr>dimension = ''minecraft:world'', scale = 0, xCenter = 0, zCenter = 0\<rparr>),
      (''map_3.dat'', \<lparr>dimension = ''minecraft:world'', scale = 1, xCenter = 5, zCenter = 5\<rparr>),
      (''map_4.dat'', \<lparr>dimension = ''minecraft:the_nether'', scale = 0, xCenter = 9, zCenter = 9\<rparr>)] =
     Inr [(''12'', (0, 0))]"
    by code_simp
  have m: "map_records ''world'' (glob_maps ''data''
     [(''map_7.dat'', \<lparr>dimension = ''minecraft:world'', scale = 0, xCenter = 0, zCenter = 0\<rparr>),
      (''map_12.dat'', \<lparr>dimension = ''minecraft:world'', scale = 0, xCenter = 0, zCenter = 0\<rparr>),
      (''map_3.dat'', \<lparr>dimension = ''minecraft:world'', scale = 1, xCenter = 5, zCenter = 5\<rparr>),
      (''map_4.dat'', \<lparr>dimension = ''minecraft:the_nether'', scale = 0, xCenter = 9, zCenter = 9\<rparr>)]) =
     [(7, 0, 0), (12, 0, 0)]"
    by code_simp
  have d: "distinct (map fst (map_records ''world'' (glob_maps ''data''
     [(''map_7.dat'', \<lparr>dimension = ''minecraft:world'', scale = 0, xCenter = 0, zCenter = 0\<rparr>),
      (''map_12.dat'', \<lparr>dimension = ''minecraft:world'', scale = 0, xCenter = 0, zCenter = 0\<rparr>),
      (''map_3.dat'', \<lparr>dimension = ''minecraft:world'', scale = 1, xCenter = 5, zCenter = 5\<rparr>),
      (''map_4.dat'', \<lparr>dimension = ''minecraft:the_nether'', scale = 0, xCenter = 9, zCenter = 9\<rparr>)])))"
    unfolding m by simp
  from loadMaps_table[OF d] l
  have "((''12'', 0, 0) \<in> set [(''12'', (0 :: int, 0 :: int))]) =
      ((\<exists>i. (i, 0, 0) \<in> set [(7 :: nat, 0 :: int, 0 :: int), (12, 0, 0)]) \<and>
       ''12'' = str_nat (Max {i. (i, 0, 0) \<in> set [(7 :: nat, 0 :: int, 0 :: int), (12, 0, 0)]}))"
    unfolding m by blast
  then have k: "''12'' = str_nat (Max {i. (i, 0, 0) \<in> set [(7 :: nat, 0 :: int, 0 :: int), (12, 0, 0)]})"
    by simp
  show ?thesis using l m k by simp
qed

text \<open>
  C6. The reduction of \<^verbatim>\<open>loadMaps\<close> (the loop over the files and the loop that builds the
  result), run on the same files in two different orders, ends the same way: both runs
  raise the same exception, or both return tables with the same entries (equal as sets
  and as dicts; the order of the entries may differ). Map ids are unique, as in C2.
\<close>

theorem reduce_maps_order_independent:
  assumes "mset files' = mset files" and "distinct (map fst (map_records world files))"
  shows "(\<forall>e. reduce_maps world files = Inl e \<longrightarrow> reduce_maps world files' = Inl e) \<and>
     (\<forall>t. reduce_maps world files = Inr t \<longrightarrow>
        (\<exists>t'. reduce_maps world files' = Inr t' \<and> set t' = set t \<and> map_of t' = map_of t))"
proof -
  have se: "set files' = set files" using assms(1) by (rule mset_eq_setD)
  have nm: "names_match world files' = names_match world files" by (rule names_match_set[OF se])
  have ms: "mset (map_records world files') = mset (map_records world files)"
    by (rule mset_map_records[OF assms(1)])
  then have "mset (map fst (map_records world files')) = mset (map fst (map_records world files))"
    by (metis mset_map)
  then have di: "distinct (map fst (map_records world files'))"
    using assms(2) by (metis mset_eq_imp_distinct_iff)
  have sr: "set (map_records world files') = set (map_records world files)"
    using ms by (rule mset_eq_setD)
  show ?thesis
  proof (cases "names_match world files")
    case False
    then show ?thesis using nm reduce_maps_error[of world files] reduce_maps_error[of world files'] by simp
  next
    case True
    from reduce_maps_winners[OF True assms(2)] obtain t where
      t: "reduce_maps world files = Inr t" "distinct (map fst t)"
         "set t = winners (set (map_records world files))" by blast
    from True nm have "names_match world files'" by simp
    from reduce_maps_winners[OF this di] obtain t' where
      t': "reduce_maps world files' = Inr t'" "distinct (map fst t')"
          "set t' = winners (set (map_records world files'))" by blast
    have "set t' = set t" using t(3) t'(3) sr by simp
    moreover from this have "map_of t' = map_of t" using t(2) t'(2) by (simp add: map_of_inject_set)
    ultimately show ?thesis using t(1) t'(1) by simp
  qed
qed

theorem reduce_maps_order_independent_witness:
  "mset [(''data/map_12.dat'', \<lparr>dimension = ''minecraft:world'', scale = 0, xCenter = 128, zCenter = 0\<rparr>),
         (''data/map_7.dat'', \<lparr>dimension = ''minecraft:world'', scale = 0, xCenter = 0, zCenter = 0\<rparr>)] =
   mset [(''data/map_7.dat'', \<lparr>dimension = ''minecraft:world'', scale = 0, xCenter = 0, zCenter = 0\<rparr>),
         (''data/map_12.dat'', \<lparr>dimension = ''minecraft:world'', scale = 0, xCenter = 128, zCenter = 0\<rparr>)] \<and>
   map_records ''world''
        [(''data/map_7.dat'', \<lparr>dimension = ''minecraft:world'', scale = 0, xCenter = 0, zCenter = 0\<rparr>),
         (''data/map_12.dat'', \<lparr>dimension = ''minecraft:world'', scale = 0, xCenter = 128, zCenter = 0\<rparr>)] =
     [(7, 0, 0), (12, 128, 0)] \<and>
   distinct (map fst [(7 :: nat, 0 :: int, 0 :: int), (12, 128, 0)]) \<and>
   reduce_maps ''world''
        [(''data/map_7.dat'', \<lparr>dimension = ''minecraft:world'', scale = 0, xCenter = 0, zCenter = 0\<rparr>),
         (''data/map_12.dat'', \<lparr>dimension = ''minecraft:world'', scale = 0, xCenter = 128, zCenter = 0\<rparr>)] =
     Inr [(''7'', (0, 0)), (''12'', (128, 0))] \<and>
   (\<exists>t'. reduce_maps ''world''
        [(''data/map_12.dat'', \<lparr>dimension = ''minecraft:world'', scale = 0, xCenter = 128, zCenter = 0\<rparr>),
         (''data/map_7.dat'', \<lparr>dimension = ''minecraft:world'', scale = 0, xCenter = 0, zCenter = 0\<rparr>)] = Inr t' \<and>
      set t' = set [(''7'', (0, 0)), (''12'', (128, 0))] \<and>
      map_of t' = map_of [(''7'', (0, 0)), (''12'', (128, 0))])"
proof -
  have p: "mset [(''data/map_12.dat'', \<lparr>dimension = ''minecraft:world'', scale = 0, xCenter = 128, zCenter = 0\<rparr>),
         (''data/map_7.dat'', \<lparr>dimension = ''minecraft:world'', scale = 0, xCenter = 0, zCenter = 0\<rparr>)] =
   mset [(''data/map_7.dat'', \<lparr>dimension = ''minecraft:world'', scale = 0, xCenter = 0, zCenter = 0\<rparr>),
         (''data/map_12.dat'', \<lparr>dimension = ''minecraft:world'', scale = 0, xCenter = 128, zCenter = 0\<rparr>)]"
    by (simp add: add_mset_commute)
  have m: "map_records ''world''
        [(''data/map_7.dat'', \<lparr>dimension = ''minecraft:world'', scale = 0, xCenter = 0, zCenter = 0\<rparr>),
         (''data/map_12.dat'', \<lparr>dimension = ''minecraft:world'', scale = 0, xCenter = 128, zCenter = 0\<rparr>)] =
     [(7, 0, 0), (12, 128, 0)]"
    by code_simp
  have d: "distinct (map fst (map_records ''world''
        [(''data/map_7.dat'', \<lparr>dimension = ''minecraft:world'', scale = 0, xCenter = 0, zCenter = 0\<rparr>),
         (''data/map_12.dat'', \<lparr>dimension = ''minecraft:world'', scale = 0, xCenter = 128, zCenter = 0\<rparr>)]))"
    unfolding m by simp
  have r: "reduce_maps ''world''
        [(''data/map_7.dat'', \<lparr>dimension = ''minecraft:world'', scale = 0, xCenter = 0, zCenter = 0\<rparr>),
         (''data/map_12.dat'', \<lparr>dimension = ''minecraft:world'', scale = 0, xCenter = 128, zCenter = 0\<rparr>)] =
     Inr [(''7'', (0, 0)), (''12'', (128, 0))]"
    by code_simp
  from reduce_maps_order_independent[OF p d] r
  have "\<exists>t'. reduce_maps ''world''
        [(''data/map_12.dat'', \<lparr>dimension = ''minecraft:world'', scale = 0, xCenter = 128, zCenter = 0\<rparr>),
         (''data/map_7.dat'', \<lparr>dimension = ''minecraft:world'', scale = 0, xCenter = 0, zCenter = 0\<rparr>)] = Inr t' \<and>
      set t' = set [(''7'', (0, 0)), (''12'', (128, 0))] \<and>
      map_of t' = map_of [(''7'', (0, 0)), (''12'', (128, 0))]"
    by blast
  then show ?thesis using p m r by simp
qed

text \<open>
  C10. \<^verbatim>\<open>loadMaps\<close> does not return on every directory. When every name that the glob
  pattern \<^verbatim>\<open>map_*.dat\<close> selects is \<^verbatim>\<open>map_\<close>, one or more digits, \<^verbatim>\<open>.dat\<close> (and the path of the
  directory has no newline, which the dots of the pattern do not match), it returns a
  table. When a selected file of the target world has a path that the pattern does not
  match, it raises \<^verbatim>\<open>AttributeError\<close>; \<^verbatim>\<open>map_x.dat\<close> with dimension \<^verbatim>\<open>minecraft:world\<close> is such
  a file.
\<close>

theorem loadMaps_partial:
  "(CHR 0x0A \<notin> set mapsDir \<and>
    (\<forall>entry \<in> set listing. fnmatch_map (fst entry) \<longrightarrow>
       (\<exists>ds. ds \<noteq> [] \<and> (\<forall>c \<in> set ds. is_digit c) \<and> fst entry = ''map_'' @ ds @ ''.dat'')) \<longrightarrow>
    (\<exists>table. loadMaps mapsDir world listing = Inr table)) \<and>
   ((\<exists>entry \<in> set listing. fnmatch_map (fst entry) \<and> dimension (snd entry) = ''minecraft:'' @ world \<and>
       re_match_group1 (mapsDir @ ''/'' @ fst entry) = None) \<longrightarrow>
    loadMaps mapsDir world listing = Inl AttributeError) \<and>
   re_match_group1 ''data/map_x.dat'' = None \<and>
   loadMaps ''data'' ''world''
     [(''map_x.dat'', \<lparr>dimension = ''minecraft:world'', scale = 0, xCenter = 0, zCenter = 0\<rparr>)] =
     Inl AttributeError"
proof (intro conjI impI)
  assume a: "CHR 0x0A \<notin> set mapsDir \<and>
    (\<forall>entry \<in> set listing. fnmatch_map (fst entry) \<longrightarrow>
       (\<exists>ds. ds \<noteq> [] \<and> (\<forall>c \<in> set ds. is_digit c) \<and> fst entry = ''map_'' @ ds @ ''.dat''))"
  have "names_match world (glob_maps mapsDir listing)"
    unfolding names_match_def list_all_iff
  proof (intro ballI impI)
    fix f assume "f \<in> set (glob_maps mapsDir listing)"
    from glob_maps_paths[OF this] obtain entry where
      e: "entry \<in> set listing" "fnmatch_map (fst entry)" "f = (mapsDir @ ''/'' @ fst entry, snd entry)"
      by blast
    with a obtain ds where ds: "ds \<noteq> []" "\<forall>c \<in> set ds. is_digit c" "fst entry = ''map_'' @ ds @ ''.dat''"
      by blast
    have "re_match_group1 (mapsDir @ ''/map_'' @ ds @ ''.dat'') = Some ds"
      by (rule re_match_exact) (use a ds in auto)
    then show "re_match_group1 (fst f) \<noteq> None" using e(3) ds(3) by simp
  qed
  then have "names_match world (sort_key fst (glob_maps mapsDir listing))"
    using names_match_set[of "sort_key fst (glob_maps mapsDir listing)" "glob_maps mapsDir listing" world]
    by simp
  then show "\<exists>table. loadMaps mapsDir world listing = Inr table"
    unfolding loadMaps_def by (rule reduce_maps_total)
next
  assume "\<exists>entry \<in> set listing. fnmatch_map (fst entry) \<and> dimension (snd entry) = ''minecraft:'' @ world \<and>
       re_match_group1 (mapsDir @ ''/'' @ fst entry) = None"
  then obtain entry where e: "entry \<in> set listing" "fnmatch_map (fst entry)"
    "dimension (snd entry) = ''minecraft:'' @ world" "re_match_group1 (mapsDir @ ''/'' @ fst entry) = None"
    by blast
  then have "(mapsDir @ ''/'' @ fst entry, snd entry) \<in> set (glob_maps mapsDir listing)"
    by (force simp: glob_maps_def)
  then have "\<not> names_match world (glob_maps mapsDir listing)"
    using e(3,4) by (force simp: names_match_def list_all_iff)
  then have "\<not> names_match world (sort_key fst (glob_maps mapsDir listing))"
    using names_match_set[of "sort_key fst (glob_maps mapsDir listing)" "glob_maps mapsDir listing" world]
    by simp
  then show "loadMaps mapsDir world listing = Inl AttributeError"
    unfolding loadMaps_def by (rule reduce_maps_error)
next
  show "re_match_group1 ''data/map_x.dat'' = None" by code_simp
next
  show "loadMaps ''data'' ''world''
     [(''map_x.dat'', \<lparr>dimension = ''minecraft:world'', scale = 0, xCenter = 0, zCenter = 0\<rparr>)] =
     Inl AttributeError" by code_simp
qed

theorem loadMaps_partial_witness:
  "CHR 0x0A \<notin> set ''data'' \<and>
   (\<exists>ds. ds \<noteq> [] \<and> (\<forall>c \<in> set ds. is_digit c) \<and> ''map_7.dat'' = ''map_'' @ ds @ ''.dat'') \<and>
   (\<exists>table. loadMaps ''data'' ''world''
      [(''map_7.dat'', \<lparr>dimension = ''minecraft:world'', scale = 0, xCenter = 0, zCenter = 0\<rparr>)] = Inr table) \<and>
   fnmatch_map ''map_x.dat'' \<and>
   re_match_group1 (''data'' @ ''/'' @ ''map_x.dat'') = None \<and>
   loadMaps ''data'' ''world''
      [(''map_7.dat'', \<lparr>dimension = ''minecraft:world'', scale = 0, xCenter = 0, zCenter = 0\<rparr>),
       (''map_x.dat'', \<lparr>dimension = ''minecraft:world'', scale = 0, xCenter = 0, zCenter = 0\<rparr>)] =
     Inl AttributeError"
proof -
  have n: "CHR 0x0A \<notin> set ''data''" by simp
  have e: "\<exists>ds. ds \<noteq> [] \<and> (\<forall>c \<in> set ds. is_digit c) \<and> ''map_7.dat'' = ''map_'' @ ds @ ''.dat''"
    by (rule exI[of _ "''7''"]) (simp add: is_digit_def)
  have f: "fnmatch_map ''map_x.dat''" by code_simp
  have g: "re_match_group1 (''data'' @ ''/'' @ ''map_x.dat'') = None" by code_simp
  from loadMaps_partial[of "''data''"
      "[(''map_7.dat'', \<lparr>dimension = ''minecraft:world'', scale = 0, xCenter = 0, zCenter = 0\<rparr>)]" "''world''"]
    n e
  have 1: "\<exists>table. loadMaps ''data'' ''world''
      [(''map_7.dat'', \<lparr>dimension = ''minecraft:world'', scale = 0, xCenter = 0, zCenter = 0\<rparr>)] = Inr table"
    by simp
  from loadMaps_partial[of "''data''"
      "[(''map_7.dat'', \<lparr>dimension = ''minecraft:world'', scale = 0, xCenter = 0, zCenter = 0\<rparr>),
        (''map_x.dat'', \<lparr>dimension = ''minecraft:world'', scale = 0, xCenter = 0, zCenter = 0\<rparr>)]" "''world''"]
    f g
  have 2: "loadMaps ''data'' ''world''
      [(''map_7.dat'', \<lparr>dimension = ''minecraft:world'', scale = 0, xCenter = 0, zCenter = 0\<rparr>),
       (''map_x.dat'', \<lparr>dimension = ''minecraft:world'', scale = 0, xCenter = 0, zCenter = 0\<rparr>)] =
     Inl AttributeError"
    by simp
  show ?thesis using n e f g 1 2 by blast
qed

end
